theory Spec2Isabelle
  imports Complex_Main "HOL-Library.Char_ord" "HOL-Library.List_Lexorder" "HOL-Library.Multiset"
begin

section \<open>Algo-Catalyst: an event-driven backtesting engine\<close>

text \<open>
  A shallow embedding of the C++ sources \<^verbatim>\<open>Events.h\<close>, \<^verbatim>\<open>Indicators.cpp\<close>,
  \<^verbatim>\<open>AI_Regime.cpp\<close>, \<^verbatim>\<open>Strategy.cpp\<close> and \<^verbatim>\<open>Engine.cpp\<close>.

  Conventions of the embedding.
  \<^item> \<^verbatim>\<open>std::int64_t\<close> and \<^verbatim>\<open>std::size_t\<close> are \<open>int\<close> and \<open>nat\<close>: signed overflow is
    undefined behaviour in C++ and lies outside the model.
  \<^item> \<^verbatim>\<open>double\<close> is \<open>real\<close>: the arithmetic of the model is exact. Rounding, infinities
    and NaN are outside the model; the properties proved below are about the control
    structure and the bookkeeping of the program and do not depend on rounding.
  \<^item> an object with mutable fields is a record; a member function takes the record and
    returns the updated one.
  \<^item> \<^verbatim>\<open>std::deque\<close> and \<^verbatim>\<open>std::vector\<close> are lists (\<open>push_back\<close> appends, \<open>pop_front\<close> is
    \<open>tl\<close>); \<^verbatim>\<open>std::map\<close> is a key-sorted association list where the iteration order is
    used and a map \<open>'k \<rightharpoonup> 'v\<close> where it is not.
  \<^item> the trailing underscore of a C++ member name is written as a prime (\<open>emas'\<close> is
    \<^verbatim>\<open>emas_\<close>): an Isabelle name cannot end in an underscore.
  \<^item> an out-of-bounds access (undefined behaviour) is the value \<open>None\<close>.
\<close>

subsection \<open>Events.h\<close>

record Tick =
  timestamp_us :: int
  price :: real
  volume :: int
  bid_size :: real
  ask_size :: real

datatype Direction = LONG | SHORT | EXIT

datatype EventType = MarketUpdate | SignalEventT | OrderEventT | FillEventT

text \<open>
  The four subclasses of \<^verbatim>\<open>Event\<close>. The first argument is the base-class timestamp; the
  others are the members in the order of the C++ constructors.
\<close>

datatype Event =
    MarketUpdateEvent int Tick
  | SignalEvent int string Direction real real
  | OrderEvent int string Direction real real
  | FillEvent int string Direction real real real

fun getType :: "Event \<Rightarrow> EventType" where
  "getType (MarketUpdateEvent ts t) = MarketUpdate"
| "getType (SignalEvent ts s d q p) = SignalEventT"
| "getType (OrderEvent ts s d q p) = OrderEventT"
| "getType (FillEvent ts s d q p c) = FillEventT"

fun getTimestamp :: "Event \<Rightarrow> int" where
  "getTimestamp (MarketUpdateEvent ts t) = ts"
| "getTimestamp (SignalEvent ts s d q p) = ts"
| "getTimestamp (OrderEvent ts s d q p) = ts"
| "getTimestamp (FillEvent ts s d q p c) = ts"

subsection \<open>Indicators.cpp\<close>

record Indicators =
  emas' :: "nat \<rightharpoonup> real \<times> real"
  ema_12' :: real
  ema_26' :: real
  macd_signal_ema_9' :: real
  macd_histogram_history' :: "real list"
  cumulative_price_volume' :: real
  cumulative_volume' :: int
  vwap_session_start_us' :: int
  volume_history' :: "(int \<times> int) list"
  prev_close' :: real
  current_price' :: real
  open_price' :: real
  is_first_tick' :: bool

definition Indicators_init :: Indicators where
  "Indicators_init =
     \<lparr> emas' = Map.empty, ema_12' = 0, ema_26' = 0, macd_signal_ema_9' = 0,
       macd_histogram_history' = [], cumulative_price_volume' = 0, cumulative_volume' = 0,
       vwap_session_start_us' = 0, volume_history' = [], prev_close' = 0,
       current_price' = 0, open_price' = 0, is_first_tick' = True \<rparr>"

definition updateEMA :: "real \<Rightarrow> nat \<Rightarrow> Indicators \<Rightarrow> Indicators" where
  "updateEMA p period ind =
     (case emas' ind period of
        None \<Rightarrow>
          (let alpha = 2 / (real period + 1)
           in ind\<lparr>emas' := (emas' ind)(period \<mapsto> (p, alpha))\<rparr>)
      | Some (ema_value, alpha) \<Rightarrow>
          ind\<lparr>emas' := (emas' ind)(period \<mapsto> (alpha * p + (1 - alpha) * ema_value, alpha))\<rparr>)"

definition getEMA :: "Indicators \<Rightarrow> nat \<Rightarrow> real" where
  "getEMA ind period = (case emas' ind period of Some (v, alpha) \<Rightarrow> v | None \<Rightarrow> 0)"

definition isPriceAboveEMA :: "Indicators \<Rightarrow> real \<Rightarrow> nat \<Rightarrow> bool" where
  "isPriceAboveEMA ind p period = (let ema = getEMA ind period in ema > 0 \<and> p > ema)"

definition updateMACD :: "real \<Rightarrow> Indicators \<Rightarrow> Indicators" where
  "updateMACD p ind =
     (let e12 = (if ema_12' ind = 0 then p
                 else (let alpha_12 = 2 / (12 + 1) in alpha_12 * p + (1 - alpha_12) * ema_12' ind));
          e26 = (if ema_26' ind = 0 then p
                 else (let alpha_26 = 2 / (26 + 1) in alpha_26 * p + (1 - alpha_26) * ema_26' ind));
          macd_line = e12 - e26;
          sig = (if macd_signal_ema_9' ind = 0 then macd_line
                 else (let alpha_9 = 2 / (9 + 1)
                       in alpha_9 * macd_line + (1 - alpha_9) * macd_signal_ema_9' ind));
          histogram = macd_line - sig;
          hist = macd_histogram_history' ind @ [histogram];
          hist' = (if length hist > 10 then tl hist else hist)
      in ind\<lparr>ema_12' := e12, ema_26' := e26, macd_signal_ema_9' := sig,
              macd_histogram_history' := hist'\<rparr>)"

definition getMACD :: "Indicators \<Rightarrow> real" where
  "getMACD ind = ema_12' ind - ema_26' ind"

definition getMACDSignal :: "Indicators \<Rightarrow> real" where
  "getMACDSignal ind = macd_signal_ema_9' ind"

definition getMACDHistogram :: "Indicators \<Rightarrow> real" where
  "getMACDHistogram ind =
     (if macd_histogram_history' ind = [] then 0 else last (macd_histogram_history' ind))"

definition isMACDHistogramExpanding :: "Indicators \<Rightarrow> bool" where
  "isMACDHistogramExpanding ind =
     (let h = macd_histogram_history' ind
      in if length h < 2 then False
         else (let current = h ! (length h - 1); previous = h ! (length h - 2)
               in current > previous))"

definition updateVWAP :: "real \<Rightarrow> int \<Rightarrow> int \<Rightarrow> Indicators \<Rightarrow> Indicators" where
  "updateVWAP p vol ts ind =
     (let ind1 = (if vwap_session_start_us' ind = 0
                  then ind\<lparr>vwap_session_start_us' := ts, cumulative_price_volume' := 0,
                           cumulative_volume' := 0\<rparr>
                  else ind)
      in ind1\<lparr>cumulative_price_volume' := cumulative_price_volume' ind1 + p * real_of_int vol,
               cumulative_volume' := cumulative_volume' ind1 + vol\<rparr>)"

definition getVWAP :: "Indicators \<Rightarrow> real" where
  "getVWAP ind =
     (if cumulative_volume' ind = 0 then 0
      else cumulative_price_volume' ind / real_of_int (cumulative_volume' ind))"

definition isPriceAboveVWAP :: "Indicators \<Rightarrow> real \<Rightarrow> bool" where
  "isPriceAboveVWAP ind p = (let vwap = getVWAP ind in vwap > 0 \<and> p > vwap)"

definition resetVWAP :: "Indicators \<Rightarrow> Indicators" where
  "resetVWAP ind =
     ind\<lparr>cumulative_price_volume' := 0, cumulative_volume' := 0, vwap_session_start_us' := 0\<rparr>"

definition updateVolume :: "int \<Rightarrow> int \<Rightarrow> Indicators \<Rightarrow> Indicators" where
  "updateVolume vol ts ind =
     (let h = volume_history' ind @ [(ts, vol)];
          h' = (if length h > 20 then tl h else h)
      in ind\<lparr>volume_history' := h'\<rparr>)"

text \<open>
  \<^verbatim>\<open>getAverageVolume(lookback)\<close>: the mean of the last \<open>min lookback size\<close> volumes. The
  only caller passes the default 20, so the count is at least 2 where the division is
  reached.
\<close>

definition getAverageVolume :: "Indicators \<Rightarrow> nat \<Rightarrow> real" where
  "getAverageVolume ind lookback =
     (let h = volume_history' ind
      in if length h < 2 then 0
         else (let count = min lookback (length h);
                   s = sum_list (map snd (drop (length h - count) h))
               in real_of_int s / real count))"

definition getRelativeVolume :: "Indicators \<Rightarrow> real" where
  "getRelativeVolume ind =
     (let avg_vol = getAverageVolume ind 20
      in if avg_vol = 0 then 0
         else if volume_history' ind = [] then 0
         else (let current_vol = snd (last (volume_history' ind))
               in real_of_int current_vol / avg_vol))"

definition updatePrice :: "real \<Rightarrow> Indicators \<Rightarrow> Indicators" where
  "updatePrice p ind =
     (let ind1 = (if is_first_tick' ind
                  then ind\<lparr>prev_close' := p, open_price' := p, is_first_tick' := False\<rparr>
                  else ind\<lparr>prev_close' := current_price' ind\<rparr>)
      in ind1\<lparr>current_price' := p\<rparr>)"

definition getGapUpPercent :: "Indicators \<Rightarrow> real" where
  "getGapUpPercent ind =
     (if prev_close' ind = 0 then 0
      else ((current_price' ind - prev_close' ind) / prev_close' ind) * 100)"

definition reset :: "Indicators \<Rightarrow> Indicators" where
  "reset ind = Indicators_init"

subsection \<open>AI\_Regime.cpp\<close>

datatype Regime = CHOPPY | TRENDING

record Feature =
  volatility :: real
  direction :: real
  volume_norm :: real

record RegimeClassifier =
  tick_history' :: "Tick list"
  lookback' :: nat
  num_clusters' :: nat
  current_regime' :: Regime
  centroids' :: "Feature list"

text \<open>The constructor: \<^verbatim>\<open>centroids_.resize(num_clusters_)\<close> value-initialises the centroids.\<close>

definition RegimeClassifier_init :: "nat \<Rightarrow> nat \<Rightarrow> RegimeClassifier" where
  "RegimeClassifier_init lookback num_clusters =
     \<lparr> tick_history' = [], lookback' = lookback, num_clusters' = num_clusters,
       current_regime' = CHOPPY,
       centroids' = replicate num_clusters \<lparr>volatility = 0, direction = 0, volume_norm = 0\<rparr> \<rparr>"

definition getCurrentRegime :: "RegimeClassifier \<Rightarrow> Regime" where
  "getCurrentRegime rc = current_regime' rc"

definition getPositionMultiplier :: "RegimeClassifier \<Rightarrow> real" where
  "getPositionMultiplier rc = (case current_regime' rc of CHOPPY \<Rightarrow> 0 | TRENDING \<Rightarrow> 1.5)"

text \<open>The simple returns \<open>(p\<^sub>i - p\<^sub>i\<^sub>-\<^sub>1) / p\<^sub>i\<^sub>-\<^sub>1\<close> of the loops over \<open>i = 1 .. size - 1\<close>,
  skipping a previous price that is not positive.\<close>

fun returns_of :: "Tick list \<Rightarrow> real list" where
  "returns_of (a # b # ts) =
     (if price a > 0 then [(price b - price a) / price a] else []) @ returns_of (b # ts)"
| "returns_of ts = []"

definition calculateVolatility :: "Tick list \<Rightarrow> real" where
  "calculateVolatility ticks =
     (if length ticks < 2 then 0
      else (let rets = returns_of ticks
            in if rets = [] then 0
               else (let mean = sum_list rets / real (length rets);
                         variance = sum_list (map (\<lambda>r. (r - mean) * (r - mean)) rets)
                                      / real (length rets)
                     in sqrt variance)))"

definition calculateDirection :: "Tick list \<Rightarrow> real" where
  "calculateDirection ticks =
     (if length ticks < 2 then 0
      else (let total_move = sum_list (returns_of ticks)
            in \<bar>total_move\<bar> / real (length ticks)))"

definition calculateDistance :: "Feature \<Rightarrow> Feature \<Rightarrow> real" where
  "calculateDistance a b =
     (let vol_diff = volatility a - volatility b;
          dir_diff = direction a - direction b;
          vol_norm_diff = volume_norm a - volume_norm b
      in sqrt (vol_diff * vol_diff + dir_diff * dir_diff + vol_norm_diff * vol_norm_diff))"

text \<open>
  \<^verbatim>\<open>calculateCentroid\<close>. For an empty cluster the source returns an uninitialised
  \<^verbatim>\<open>Feature\<close>; its only caller skips empty clusters, so that value is never used.
\<close>

definition calculateCentroid :: "Feature list \<Rightarrow> Feature" where
  "calculateCentroid cluster =
     (let sum_vol = sum_list (map volatility cluster);
          sum_dir = sum_list (map direction cluster);
          sum_vol_norm = sum_list (map volume_norm cluster);
          count = real (length cluster)
      in \<lparr>volatility = sum_vol / count, direction = sum_dir / count,
          volume_norm = sum_vol_norm / count\<rparr>)"

text \<open>The feature of one window: shared by the sliding windows of \<^verbatim>\<open>extractFeatures\<close> and
  by its fallback over the whole history.\<close>

definition window_feature :: "Tick list \<Rightarrow> Feature" where
  "window_feature window =
     (let sum_vol = sum_list (map volume window);
          avg_vol = (if sum_vol > 0 then real_of_int sum_vol / real (length window) else 1)
      in \<lparr>volatility = calculateVolatility window, direction = calculateDirection window,
          volume_norm = real_of_int (volume (last window)) / avg_vol\<rparr>)"

definition extractFeatures :: "Tick list \<Rightarrow> Feature list" where
  "extractFeatures ticks =
     (if length ticks < 2 then []
      else (let window_size = 10;
                features = map (\<lambda>i. window_feature (take (window_size + 1) (drop (i - window_size) ticks)))
                               [window_size ..< length ticks]
            in if features = [] \<and> length ticks \<ge> 2 then [window_feature ticks] else features))"

text \<open>\<^verbatim>\<open>std::numeric_limits<double>::max()\<close>.\<close>

definition DBL_MAX :: real where
  "DBL_MAX = (2 - 1 / 2 ^ 52) * 2 ^ 1023"

text \<open>
  The nearest-centroid loop, written twice in the source (in \<^verbatim>\<open>performKMeans\<close> and in
  \<^verbatim>\<open>updateAndClassify\<close>): \<open>nearest_centroid f cs i min_dist nearest\<close> scans the remaining
  centroids \<open>cs\<close>, the first of which has index \<open>i\<close>.
\<close>

fun nearest_centroid :: "Feature \<Rightarrow> Feature list \<Rightarrow> nat \<Rightarrow> real \<Rightarrow> nat \<Rightarrow> nat" where
  "nearest_centroid f [] i min_dist nearest = nearest"
| "nearest_centroid f (c # cs) i min_dist nearest =
     (let dist = calculateDistance f c
      in if dist < min_dist then nearest_centroid f cs (Suc i) dist i
         else nearest_centroid f cs (Suc i) min_dist nearest)"

fun assign_clusters :: "Feature list \<Rightarrow> Feature list \<Rightarrow> Feature list list \<Rightarrow> Feature list list" where
  "assign_clusters [] cs clusters = clusters"
| "assign_clusters (f # fs) cs clusters =
     (let nearest = nearest_centroid f cs 0 DBL_MAX 0
      in assign_clusters fs cs (clusters[nearest := clusters ! nearest @ [f]]))"

definition update_centroid :: "Feature list list \<Rightarrow> nat \<Rightarrow> Feature list \<times> bool \<Rightarrow> Feature list \<times> bool" where
  "update_centroid clusters i acc =
     (case acc of (cs, converged) \<Rightarrow>
        if clusters ! i = [] then (cs, converged)
        else (let new_centroid = calculateCentroid (clusters ! i);
                  dist_change = calculateDistance new_centroid (cs ! i)
              in (cs[i := new_centroid], if dist_change > 0.001 then False else converged)))"

fun kmeans_iterations :: "nat \<Rightarrow> nat \<Rightarrow> Feature list \<Rightarrow> Feature list \<Rightarrow> Feature list" where
  "kmeans_iterations 0 k features cs = cs"
| "kmeans_iterations (Suc n) k features cs =
     (let clusters = assign_clusters features cs (replicate k []);
          (cs', converged) = fold (update_centroid clusters) [0 ..< k] (cs, True)
      in if converged then cs' else kmeans_iterations n k features cs')"

text \<open>
  \<^verbatim>\<open>performKMeans\<close>. With \<open>num_clusters' = 0\<close> the vector of centroids is empty and the
  write to \<^verbatim>\<open>centroids_[0]\<close> is out of bounds: \<open>None\<close>.
\<close>

definition performKMeans :: "Feature list \<Rightarrow> RegimeClassifier \<Rightarrow> RegimeClassifier option" where
  "performKMeans features rc =
     (if features = [] then Some rc
      else if num_clusters' rc = 0 then None
      else (let volatilities = sort (map volatility features);
                directions = sort (map direction features);
                volumes = sort (map volume_norm features);
                n = length features;
                c0 = \<lparr>volatility = volatilities ! (n div 4), direction = directions ! (n div 4),
                      volume_norm = volumes ! (n div 4)\<rparr>;
                cs0 = (centroids' rc)[0 := c0];
                cs1 = (if num_clusters' rc > 1
                       then cs0[1 := \<lparr>volatility = volatilities ! (3 * n div 4),
                                      direction = directions ! (3 * n div 4),
                                      volume_norm = volumes ! (3 * n div 4)\<rparr>]
                       else cs0)
            in Some (rc\<lparr>centroids' := kmeans_iterations 10 (num_clusters' rc) features cs1\<rparr>)))"

definition updateAndClassify :: "Tick \<Rightarrow> RegimeClassifier \<Rightarrow> RegimeClassifier option" where
  "updateAndClassify tick rc =
     (let h = tick_history' rc @ [tick];
          h' = (if length h > lookback' rc then tl h else h);
          rc1 = rc\<lparr>tick_history' := h'\<rparr>
      in if length h' < 20 then Some (rc1\<lparr>current_regime' := CHOPPY\<rparr>)
         else (let features = extractFeatures h'
               in case performKMeans features rc1 of
                    None \<Rightarrow> None
                  | Some rc2 \<Rightarrow>
                     (let current_feature =
                            (if length h' \<ge> 2
                             then (let sum_vol = sum_list (map volume h');
                                       count = length h';
                                       avg_vol = (if count > 0 then real_of_int sum_vol / real count else 1)
                                   in \<lparr>volatility = calculateVolatility h',
                                       direction = calculateDirection h',
                                       volume_norm = real_of_int (volume tick) / avg_vol\<rparr>)
                             else last features);
                          nearest_cluster = nearest_centroid current_feature (centroids' rc2) 0 DBL_MAX 0
                      in if nearest_cluster = 0
                         then (if volatility current_feature > 0.02 \<and> direction current_feature > 0.01
                               then Some (rc2\<lparr>current_regime' := TRENDING\<rparr>)
                               else Some (rc2\<lparr>current_regime' := CHOPPY\<rparr>))
                         else Some (rc2\<lparr>current_regime' := TRENDING\<rparr>))))"

subsection \<open>Strategy.cpp\<close>

text \<open>
  \<^verbatim>\<open>NewsMomentumStrategy\<close> with the members it inherits from \<^verbatim>\<open>Strategy\<close>. The member
  \<^verbatim>\<open>regime_classifier_\<close> is a pointer that the source tests against null before every
  use: \<open>None\<close> is the null pointer, \<open>Some rc\<close> the classifier it points to.
\<close>

record NewsMomentumStrategy =
  symbol' :: string
  position' :: real
  avg_fill_price' :: real
  indicators' :: Indicators
  regime_classifier' :: "RegimeClassifier option"
  min_relative_volume' :: real
  min_gap_up_percent' :: real
  min_bid_ask_ratio' :: real
  base_position_size' :: real
  was_long_ema_above_short' :: bool
  entry_timestamp_us' :: int

definition NewsMomentumStrategy_init :: "string \<Rightarrow> RegimeClassifier option \<Rightarrow> NewsMomentumStrategy" where
  "NewsMomentumStrategy_init name rc =
     \<lparr> symbol' = name, position' = 0, avg_fill_price' = 0, indicators' = Indicators_init,
       regime_classifier' = rc, min_relative_volume' = 5, min_gap_up_percent' = 10,
       min_bid_ask_ratio' = 1.5, base_position_size' = 100,
       was_long_ema_above_short' = False, entry_timestamp_us' = 0 \<rparr>"

definition setMinRelativeVolume :: "real \<Rightarrow> NewsMomentumStrategy \<Rightarrow> NewsMomentumStrategy" where
  "setMinRelativeVolume vol s = s\<lparr>min_relative_volume' := vol\<rparr>"

definition setMinGapUpPercent :: "real \<Rightarrow> NewsMomentumStrategy \<Rightarrow> NewsMomentumStrategy" where
  "setMinGapUpPercent percent s = s\<lparr>min_gap_up_percent' := percent\<rparr>"

definition setMinBidAskRatio :: "real \<Rightarrow> NewsMomentumStrategy \<Rightarrow> NewsMomentumStrategy" where
  "setMinBidAskRatio ratio s = s\<lparr>min_bid_ask_ratio' := ratio\<rparr>"

definition setBasePositionSize :: "real \<Rightarrow> NewsMomentumStrategy \<Rightarrow> NewsMomentumStrategy" where
  "setBasePositionSize sz s = s\<lparr>base_position_size' := sz\<rparr>"

definition hasPosition :: "NewsMomentumStrategy \<Rightarrow> bool" where
  "hasPosition s = (position' s \<noteq> 0)"

definition getPosition :: "NewsMomentumStrategy \<Rightarrow> real" where
  "getPosition s = position' s"

definition checkVolumeSpike :: "NewsMomentumStrategy \<Rightarrow> bool" where
  "checkVolumeSpike s =
     (let rel_vol = getRelativeVolume (indicators' s) in rel_vol \<ge> min_relative_volume' s)"

definition checkGapUp :: "NewsMomentumStrategy \<Rightarrow> bool" where
  "checkGapUp s =
     (let gap_percent = getGapUpPercent (indicators' s) in gap_percent \<ge> min_gap_up_percent' s)"

definition checkEMATrend :: "NewsMomentumStrategy \<Rightarrow> real \<Rightarrow> bool" where
  "checkEMATrend s p =
     (if p = 0 then False
      else (let above_90 = isPriceAboveEMA (indicators' s) p 90;
                above_200 = isPriceAboveEMA (indicators' s) p 200;
                ema_90 = getEMA (indicators' s) 90;
                ema_200 = getEMA (indicators' s) 200
            in above_90 \<and> above_200 \<and> ema_90 > ema_200))"

text \<open>\<^verbatim>\<open>checkEMACrossover\<close> writes the member \<^verbatim>\<open>was_long_ema_above_short_\<close>: it returns its
  result together with the updated strategy.\<close>

definition checkEMACrossover :: "NewsMomentumStrategy \<Rightarrow> bool \<times> NewsMomentumStrategy" where
  "checkEMACrossover s =
     (let ema_9 = getEMA (indicators' s) 9;
          ema_90 = getEMA (indicators' s) 90
      in if ema_9 = 0 \<or> ema_90 = 0 then (False, s)
         else (let current_long_above = ema_9 > ema_90;
                   crossover = current_long_above \<and> \<not> was_long_ema_above_short' s
               in (crossover \<or> current_long_above,
                   s\<lparr>was_long_ema_above_short' := current_long_above\<rparr>)))"

definition checkVWAP :: "NewsMomentumStrategy \<Rightarrow> real \<Rightarrow> bool" where
  "checkVWAP s p = (if p = 0 then False else isPriceAboveVWAP (indicators' s) p)"

definition checkMACD :: "NewsMomentumStrategy \<Rightarrow> bool" where
  "checkMACD s = isMACDHistogramExpanding (indicators' s)"

definition checkOrderBookImbalance :: "NewsMomentumStrategy \<Rightarrow> Tick \<Rightarrow> bool" where
  "checkOrderBookImbalance s tick =
     (if ask_size tick = 0 then False
      else (let bid_ask_ratio = bid_size tick / ask_size tick
            in bid_ask_ratio \<ge> min_bid_ask_ratio' s))"

definition checkEntryConditions :: "NewsMomentumStrategy \<Rightarrow> Tick \<Rightarrow> bool \<times> NewsMomentumStrategy" where
  "checkEntryConditions s tick =
     (if \<not> checkVolumeSpike s \<or> \<not> checkGapUp s then (False, s)
      else if \<not> checkEMATrend s (price tick) then (False, s)
      else (case checkEMACrossover s of (crossed, s1) \<Rightarrow>
        if \<not> crossed then (False, s1)
        else if \<not> checkVWAP s1 (price tick) then (False, s1)
        else if \<not> checkMACD s1 then (False, s1)
        else if \<not> checkOrderBookImbalance s1 tick then (False, s1)
        else (case regime_classifier' s1 of
                Some rc \<Rightarrow> if getCurrentRegime rc \<noteq> TRENDING then (False, s1) else (True, s1)
              | None \<Rightarrow> (True, s1))))"

definition checkExitConditions :: "NewsMomentumStrategy \<Rightarrow> Tick \<Rightarrow> bool" where
  "checkExitConditions s tick =
     (if \<not> isPriceAboveVWAP (indicators' s) (price tick) then True
      else if \<not> isMACDHistogramExpanding (indicators' s) \<and> getMACDHistogram (indicators' s) < 0
           then True
      else (case regime_classifier' s of
              Some rc \<Rightarrow> getCurrentRegime rc = CHOPPY
            | None \<Rightarrow> False))"

definition calculatePositionSize :: "NewsMomentumStrategy \<Rightarrow> real" where
  "calculatePositionSize s =
     (let base_size = base_position_size' s
      in case regime_classifier' s of
           Some rc \<Rightarrow>
             (let multiplier = getPositionMultiplier rc
              in if multiplier > 0 then base_size * multiplier else base_size)
         | None \<Rightarrow> base_size)"

text \<open>
  \<^verbatim>\<open>processMarketUpdate(event)\<close>: \<open>ts\<close> is \<^verbatim>\<open>event.getTimestamp()\<close> and \<open>tick\<close> is
  \<^verbatim>\<open>event.getTick()\<close>. The result is the updated strategy and the vector of signals;
  \<open>None\<close> only where the classifier runs into undefined behaviour.
\<close>

definition processMarketUpdate ::
  "int \<Rightarrow> Tick \<Rightarrow> NewsMomentumStrategy \<Rightarrow> (NewsMomentumStrategy \<times> Event list) option" where
  "processMarketUpdate ts tick s =
     (case (case regime_classifier' s of
              None \<Rightarrow> Some None
            | Some rc \<Rightarrow> map_option Some (updateAndClassify tick rc)) of
        None \<Rightarrow> None
      | Some rc' \<Rightarrow>
         (let ind = updateVolume (volume tick) ts
                     (updateVWAP (price tick) (volume tick) ts
                       (updateMACD (price tick)
                         (updateEMA (price tick) 200
                           (updateEMA (price tick) 90
                             (updateEMA (price tick) 9
                               (updatePrice (price tick) (indicators' s)))))));
              s1 = s\<lparr>regime_classifier' := rc', indicators' := ind\<rparr>
          in if hasPosition s1
             then (if checkExitConditions s1 tick
                   then Some (s1, [SignalEvent ts (symbol' s1) EXIT \<bar>position' s1\<bar> (price tick)])
                   else Some (s1, []))
             else (case checkEntryConditions s1 tick of (entry, s2) \<Rightarrow>
                     if \<not> hasPosition s1 \<and> entry
                     then (let position_size = calculatePositionSize s2
                           in if position_size > 0
                              then Some (s2\<lparr>entry_timestamp_us' := ts\<rparr>,
                                         [SignalEvent ts (symbol' s2) LONG position_size (price tick)])
                              else Some (s2, []))
                     else Some (s2, []))))"

text \<open>Feeding a sequence of market updates to one strategy, collecting every signal.\<close>

fun processMarketUpdates ::
  "(int \<times> Tick) list \<Rightarrow> NewsMomentumStrategy \<Rightarrow> (NewsMomentumStrategy \<times> Event list) option" where
  "processMarketUpdates [] s = Some (s, [])"
| "processMarketUpdates ((ts, tick) # evs) s =
     (case processMarketUpdate ts tick s of
        None \<Rightarrow> None
      | Some (s1, sigs) \<Rightarrow>
          (case processMarketUpdates evs s1 of
             None \<Rightarrow> None
           | Some (s2, sigs') \<Rightarrow> Some (s2, sigs @ sigs')))"

text \<open>Feeding a sequence of ticks to one classifier.\<close>

fun updateAndClassifyAll :: "Tick list \<Rightarrow> RegimeClassifier \<Rightarrow> RegimeClassifier option" where
  "updateAndClassifyAll [] rc = Some rc"
| "updateAndClassifyAll (t # ts) rc =
     (case updateAndClassify t rc of None \<Rightarrow> None | Some rc1 \<Rightarrow> updateAndClassifyAll ts rc1)"

subsection \<open>Engine.cpp: the containers\<close>

text \<open>
  \<^verbatim>\<open>std::map<std::string, V>\<close> as an association list sorted by key, so that iteration
  (\<^verbatim>\<open>begin()\<close>, range-for) visits the keys in ascending order as the C++ container does.
  \<open>map_find\<close> is \<^verbatim>\<open>find\<close>, \<open>map_set\<close> is the assignment \<^verbatim>\<open>m[k] = v\<close>.
\<close>

definition map_find :: "(string \<times> 'v) list \<Rightarrow> string \<Rightarrow> 'v option" where
  "map_find m k = map_of m k"

fun map_set :: "string \<Rightarrow> 'v \<Rightarrow> (string \<times> 'v) list \<Rightarrow> (string \<times> 'v) list" where
  "map_set k v [] = [(k, v)]"
| "map_set k v ((k', v') # m) =
     (if k = k' then (k, v) # m
      else if k < k' then (k, v) # (k', v') # m
      else (k', v') # map_set k v m)"

text \<open>
  The event queue is \<^verbatim>\<open>std::priority_queue<EventPtr, std::vector<EventPtr>, EventComparator>\<close>.
  The comparator is the source's; the container adaptor is the standard library's:
  \<^verbatim>\<open>push\<close> is \<^verbatim>\<open>push_back\<close> followed by \<^verbatim>\<open>std::push_heap\<close>, \<^verbatim>\<open>pop\<close> is \<^verbatim>\<open>std::pop_heap\<close>
  followed by \<^verbatim>\<open>pop_back\<close>, \<^verbatim>\<open>top\<close> is \<^verbatim>\<open>front\<close>. The two heap algorithms are written
  out as the binary-heap loops of libstdc++ (\<^verbatim>\<open>__push_heap\<close>, \<^verbatim>\<open>__adjust_heap\<close> in
  \<^verbatim>\<open>bits/stl_heap.h\<close>) on the underlying vector.
\<close>

definition EventComparator :: "Event \<Rightarrow> Event \<Rightarrow> bool" where
  "EventComparator a b = (getTimestamp a > getTimestamp b)"

function push_heap_loop :: "Event list \<Rightarrow> nat \<Rightarrow> nat \<Rightarrow> Event \<Rightarrow> Event list" where
  "push_heap_loop h holeIndex topIndex v =
     (let parent = (holeIndex - 1) div 2
      in if holeIndex > topIndex \<and> EventComparator (h ! parent) v
         then push_heap_loop (h[holeIndex := h ! parent]) parent topIndex v
         else h[holeIndex := v])"
  by pat_completeness auto
termination
  by (relation "measure (\<lambda>(h, holeIndex, topIndex, v). holeIndex)") auto

declare push_heap_loop.simps [simp del]

definition push_heap :: "Event list \<Rightarrow> Event list" where
  "push_heap h = push_heap_loop h (length h - 1) 0 (h ! (length h - 1))"

function adjust_heap_loop :: "Event list \<Rightarrow> nat \<Rightarrow> nat \<Rightarrow> nat \<Rightarrow> Event list \<times> nat \<times> nat" where
  "adjust_heap_loop h holeIndex secondChild len =
     (if secondChild < (len - 1) div 2
      then (let sc = 2 * (secondChild + 1);
                sc' = (if EventComparator (h ! sc) (h ! (sc - 1)) then sc - 1 else sc)
            in adjust_heap_loop (h[holeIndex := h ! sc']) sc' sc' len)
      else (h, holeIndex, secondChild))"
  by pat_completeness auto
termination
  by (relation "measure (\<lambda>(h, holeIndex, secondChild, len). len - secondChild)") auto

declare adjust_heap_loop.simps [simp del]

definition adjust_heap :: "Event list \<Rightarrow> nat \<Rightarrow> nat \<Rightarrow> Event \<Rightarrow> Event list" where
  "adjust_heap h holeIndex len v =
     (let topIndex = holeIndex
      in case adjust_heap_loop h holeIndex holeIndex len of (h1, hole1, secondChild) \<Rightarrow>
           if even len \<and> secondChild = (len - 2) div 2
           then (let sc = 2 * (secondChild + 1)
                 in push_heap_loop (h1[hole1 := h1 ! (sc - 1)]) (sc - 1) topIndex v)
           else push_heap_loop h1 hole1 topIndex v)"

definition pop_heap :: "Event list \<Rightarrow> Event list" where
  "pop_heap h =
     (if length h > 1
      then (let last_ix = length h - 1;
                v = h ! last_ix
            in adjust_heap (h[last_ix := h ! 0]) 0 last_ix v)
      else h)"

definition queue_push :: "Event \<Rightarrow> Event list \<Rightarrow> Event list" where
  "queue_push e q = push_heap (q @ [e])"

definition queue_pop :: "Event list \<Rightarrow> Event list" where
  "queue_pop q = butlast (pop_heap q)"

definition queue_top :: "Event list \<Rightarrow> Event" where
  "queue_top q = q ! 0"

subsection \<open>Engine.cpp: the backtester\<close>

record TradeRecord =
  entry_timestamp_us :: int
  exit_timestamp_us :: int
  symbol :: string
  entry_price :: real
  exit_price :: real
  quantity :: real
  pnl :: real
  regime :: string

text \<open>\<^verbatim>\<open>Backtester::Position\<close>; its members carry the prefix \<open>pos_\<close> to keep them apart from
  those of \<^verbatim>\<open>TradeRecord\<close>.\<close>

record Position =
  pos_symbol :: string
  pos_quantity :: real
  pos_avg_price :: real
  pos_direction :: Direction
  pos_entry_timestamp_us :: int
  pos_entry_regime :: string

text \<open>
  The backtester holds its strategies through the abstract class \<^verbatim>\<open>Strategy\<close> and calls
  the virtual \<^verbatim>\<open>processMarketUpdate\<close>. The state of a strategy is the type parameter
  \<open>'s\<close>, and the virtual method is a parameter \<open>pmu\<close> of the functions that call it;
  for \<^verbatim>\<open>NewsMomentumStrategy\<close> it is \<^const>\<open>processMarketUpdate\<close>.
\<close>

record 's Backtester =
  event_queue' :: "Event list"
  strategies' :: "(string \<times> 's) list"
  tick_data' :: "(string \<times> Tick list) list"
  positions' :: "(string \<times> Position) list"
  trade_log' :: "TradeRecord list"
  latency_ms' :: real
  current_time_us' :: int

definition Backtester_init :: "real \<Rightarrow> 's Backtester" where
  "Backtester_init latency_ms =
     \<lparr> event_queue' = [], strategies' = [], tick_data' = [], positions' = [],
       trade_log' = [], latency_ms' = latency_ms, current_time_us' = 0 \<rparr>"

text \<open>
  \<^verbatim>\<open>loadTickData\<close>: the argument \<open>ticks\<close> is what \<^verbatim>\<open>TickLoader::loadFromCSV\<close> returned (reading
  the file is outside the model). The Boolean is the return value.
\<close>

definition loadTickData :: "Tick list \<Rightarrow> string \<Rightarrow> 's Backtester \<Rightarrow> bool \<times> 's Backtester" where
  "loadTickData ticks sym_name bt =
     (if ticks = [] then (False, bt)
      else (True,
            bt\<lparr>tick_data' := map_set sym_name ticks (tick_data' bt),
               event_queue' := fold (\<lambda>tick q. queue_push (MarketUpdateEvent (timestamp_us tick) tick) q)
                                    ticks (event_queue' bt)\<rparr>))"

definition registerStrategy :: "string \<Rightarrow> 's \<Rightarrow> 's Backtester \<Rightarrow> 's Backtester" where
  "registerStrategy sym_name strategy bt =
     bt\<lparr>strategies' := map_set sym_name strategy (strategies' bt)\<rparr>"

text \<open>\<^verbatim>\<open>static_cast<std::int64_t>\<close> of a double truncates toward zero.\<close>

definition static_cast_int64 :: "real \<Rightarrow> int" where
  "static_cast_int64 x = (if x \<ge> 0 then \<lfloor>x\<rfloor> else \<lceil>x\<rceil>)"

definition applyLatency :: "'s Backtester \<Rightarrow> int \<Rightarrow> int" where
  "applyLatency bt ts = (let latency_us = static_cast_int64 (latency_ms' bt * 1000) in ts + latency_us)"

definition closePosition :: "string \<Rightarrow> real \<Rightarrow> int \<Rightarrow> 's Backtester \<Rightarrow> 's Backtester" where
  "closePosition sym_name exit_price_arg ts bt =
     (case map_find (positions' bt) sym_name of
        None \<Rightarrow> bt
      | Some position \<Rightarrow>
          if pos_quantity position = 0 then bt
          else (let pnl_v = (if pos_direction position = LONG
                             then (exit_price_arg - pos_avg_price position) * pos_quantity position
                             else (pos_avg_price position - exit_price_arg) * pos_quantity position);
                    trade = \<lparr> entry_timestamp_us = pos_entry_timestamp_us position,
                              exit_timestamp_us = ts,
                              symbol = sym_name,
                              entry_price = pos_avg_price position,
                              exit_price = exit_price_arg,
                              quantity = pos_quantity position,
                              pnl = pnl_v,
                              regime = pos_entry_regime position \<rparr>
                in bt\<lparr>trade_log' := trade_log' bt @ [trade],
                      positions' := map_set sym_name
                         (position\<lparr>pos_quantity := 0, pos_avg_price := 0, pos_entry_timestamp_us := 0\<rparr>)
                         (positions' bt)\<rparr>))"

text \<open>\<^verbatim>\<open>updatePosition(fill)\<close>; the arguments are the members of the \<^verbatim>\<open>FillEvent\<close>.\<close>

definition updatePosition ::
  "int \<Rightarrow> string \<Rightarrow> Direction \<Rightarrow> real \<Rightarrow> real \<Rightarrow> 's Backtester \<Rightarrow> 's Backtester" where
  "updatePosition ts sym_name dir qty fill_price bt =
     (let bt1 = (if map_find (positions' bt) sym_name = None
                 then bt\<lparr>positions' := map_set sym_name
                          \<lparr> pos_symbol = sym_name, pos_quantity = 0, pos_avg_price = 0,
                            pos_direction = LONG, pos_entry_timestamp_us = 0,
                            pos_entry_regime = ''UNKNOWN'' \<rparr> (positions' bt)\<rparr>
                 else bt)
      in case map_find (positions' bt1) sym_name of
           None \<Rightarrow> bt1
         | Some position \<Rightarrow>
             if dir = EXIT
             then (if pos_quantity position \<noteq> 0 then closePosition sym_name fill_price ts bt1 else bt1)
             else if dir = LONG
             then (if pos_quantity position = 0
                   then (let p1 = position\<lparr>pos_quantity := qty, pos_avg_price := fill_price,
                                           pos_direction := LONG, pos_entry_timestamp_us := ts\<rparr>;
                             p2 = (if map_find (strategies' bt1) sym_name \<noteq> None
                                   then p1\<lparr>pos_entry_regime := ''TRENDING''\<rparr> else p1)
                         in bt1\<lparr>positions' := map_set sym_name p2 (positions' bt1)\<rparr>)
                   else (let total_cost = pos_avg_price position * pos_quantity position
                                          + fill_price * qty;
                             q' = pos_quantity position + qty
                         in bt1\<lparr>positions' := map_set sym_name
                                  (position\<lparr>pos_quantity := q', pos_avg_price := total_cost / q'\<rparr>)
                                  (positions' bt1)\<rparr>))
             else bt1)"

text \<open>The symbol heuristic of \<^verbatim>\<open>Backtester::processMarketUpdate\<close>: the first symbol, in key
  order, whose first tick lies at most 1000 seconds before the tick of the event; the
  empty string if there is none.\<close>

fun match_symbol :: "(string \<times> Tick list) list \<Rightarrow> Tick \<Rightarrow> string" where
  "match_symbol [] event_tick = []"
| "match_symbol ((sym_name, ticks) # rest) event_tick =
     (if ticks = [] then match_symbol rest event_tick
      else (let first_tick = ticks ! 0;
                likely_match = (timestamp_us event_tick \<ge> timestamp_us first_tick
                                \<and> timestamp_us event_tick \<le> timestamp_us first_tick + 1000000000)
            in if likely_match then sym_name else match_symbol rest event_tick))"

definition Backtester_processMarketUpdate ::
  "(int \<Rightarrow> Tick \<Rightarrow> 's \<Rightarrow> ('s \<times> Event list) option) \<Rightarrow> int \<Rightarrow> Tick \<Rightarrow> 's Backtester
     \<Rightarrow> 's Backtester option" where
  "Backtester_processMarketUpdate pmu ts tick bt =
     (let sym0 = match_symbol (tick_data' bt) tick;
          event_symbol =
            (if sym0 = [] \<and> tick_data' bt \<noteq> []
             then (if length (tick_data' bt) = 1 then fst (tick_data' bt ! 0)
                   else if strategies' bt \<noteq> [] then fst (strategies' bt ! 0)
                   else sym0)
             else sym0)
      in if event_symbol \<noteq> []
         then (case map_find (strategies' bt) event_symbol of
                 None \<Rightarrow> Some bt
               | Some strategy \<Rightarrow>
                   (case pmu ts tick strategy of
                      None \<Rightarrow> None
                    | Some (strategy', signals) \<Rightarrow>
                        Some (bt\<lparr>strategies' := map_set event_symbol strategy' (strategies' bt),
                                 event_queue' := fold queue_push signals (event_queue' bt)\<rparr>)))
         else Some bt)"

definition processSignalEvent ::
  "int \<Rightarrow> string \<Rightarrow> Direction \<Rightarrow> real \<Rightarrow> real \<Rightarrow> 's Backtester \<Rightarrow> 's Backtester" where
  "processSignalEvent ts sym_name dir qty p bt =
     bt\<lparr>event_queue' := queue_push (OrderEvent ts sym_name dir qty p) (event_queue' bt)\<rparr>"

text \<open>The scan of \<^verbatim>\<open>processOrderEvent\<close> over the ticks of the symbol: the price of the first
  tick at or after the fill time, the given price if there is none.\<close>

fun price_at_fill :: "Tick list \<Rightarrow> int \<Rightarrow> real \<Rightarrow> real" where
  "price_at_fill [] fill_timestamp_us fill_price = fill_price"
| "price_at_fill (tick # ticks) fill_timestamp_us fill_price =
     (if timestamp_us tick \<ge> fill_timestamp_us then price tick
      else price_at_fill ticks fill_timestamp_us fill_price)"

text \<open>The \<^verbatim>\<open>FillEvent\<close> that \<^verbatim>\<open>processOrderEvent\<close> builds for an order.\<close>

definition order_fill :: "'s Backtester \<Rightarrow> int \<Rightarrow> string \<Rightarrow> Direction \<Rightarrow> real \<Rightarrow> real \<Rightarrow> Event" where
  "order_fill bt ts sym_name dir qty p =
     (let fill_timestamp_us = applyLatency bt ts;
          fill_price = (case map_find (tick_data' bt) sym_name of
                          Some ticks \<Rightarrow> price_at_fill ticks fill_timestamp_us p
                        | None \<Rightarrow> p);
          commission = fill_price * qty * 0.0001
      in FillEvent fill_timestamp_us sym_name dir qty fill_price commission)"

definition processOrderEvent ::
  "int \<Rightarrow> string \<Rightarrow> Direction \<Rightarrow> real \<Rightarrow> real \<Rightarrow> 's Backtester \<Rightarrow> 's Backtester" where
  "processOrderEvent ts sym_name dir qty p bt =
     bt\<lparr>event_queue' := queue_push (order_fill bt ts sym_name dir qty p) (event_queue' bt)\<rparr>"

definition processFillEvent ::
  "int \<Rightarrow> string \<Rightarrow> Direction \<Rightarrow> real \<Rightarrow> real \<Rightarrow> real \<Rightarrow> 's Backtester \<Rightarrow> 's Backtester" where
  "processFillEvent ts sym_name dir qty fill_price commission bt =
     updatePosition ts sym_name dir qty fill_price bt"

fun processEvent ::
  "(int \<Rightarrow> Tick \<Rightarrow> 's \<Rightarrow> ('s \<times> Event list) option) \<Rightarrow> Event \<Rightarrow> 's Backtester
     \<Rightarrow> 's Backtester option" where
  "processEvent pmu (MarketUpdateEvent ts tick) bt = Backtester_processMarketUpdate pmu ts tick bt"
| "processEvent pmu (SignalEvent ts s d q p) bt = Some (processSignalEvent ts s d q p bt)"
| "processEvent pmu (OrderEvent ts s d q p) bt = Some (processOrderEvent ts s d q p bt)"
| "processEvent pmu (FillEvent ts s d q p c) bt = Some (processFillEvent ts s d q p c bt)"

text \<open>
  The event loop of \<^verbatim>\<open>run\<close>. A strategy may answer a market update with any events, so
  the loop need not terminate for every strategy: it is a partial function, and \<open>None\<close>
  is a run without a result. Next to the state the loop returns the events in the order
  in which they were passed to \<^verbatim>\<open>processEvent\<close> (the source counts them in
  \<^verbatim>\<open>events_processed\<close>).
\<close>

partial_function (option) run_loop ::
  "(int \<Rightarrow> Tick \<Rightarrow> 's \<Rightarrow> ('s \<times> Event list) option) \<Rightarrow> 's Backtester \<Rightarrow> Event list
     \<Rightarrow> ('s Backtester \<times> Event list) option" where
  "run_loop pmu bt dispatched =
     (if event_queue' bt = [] then Some (bt, dispatched)
      else (let event = queue_top (event_queue' bt);
                bt1 = bt\<lparr>event_queue' := queue_pop (event_queue' bt)\<rparr>;
                bt2 = bt1\<lparr>current_time_us' := getTimestamp event\<rparr>
            in case processEvent pmu event bt2 of
                 None \<Rightarrow> None
               | Some bt3 \<Rightarrow> run_loop pmu bt3 (dispatched @ [event])))"

text \<open>The loop of \<^verbatim>\<open>run\<close> that closes the remaining positions, symbol by symbol in key
  order; \<^verbatim>\<open>tick_data_[symbol]\<close> creates an empty entry for a symbol without ticks.\<close>

definition close_remaining :: "string \<Rightarrow> 's Backtester \<Rightarrow> 's Backtester" where
  "close_remaining sym_name bt =
     (case map_find (positions' bt) sym_name of
        None \<Rightarrow> bt
      | Some position \<Rightarrow>
          if pos_quantity position \<noteq> 0
          then (case map_find (tick_data' bt) sym_name of
                  None \<Rightarrow> bt\<lparr>tick_data' := map_set sym_name [] (tick_data' bt)\<rparr>
                | Some ticks \<Rightarrow>
                    if ticks \<noteq> []
                    then (let last_tick = last ticks
                          in closePosition sym_name (price last_tick) (timestamp_us last_tick) bt)
                    else bt)
          else bt)"

definition run ::
  "(int \<Rightarrow> Tick \<Rightarrow> 's \<Rightarrow> ('s \<times> Event list) option) \<Rightarrow> 's Backtester
     \<Rightarrow> ('s Backtester \<times> Event list) option" where
  "run pmu bt =
     (case run_loop pmu bt [] of
        None \<Rightarrow> None
      | Some (bt1, dispatched) \<Rightarrow>
          Some (fold close_remaining (map fst (positions' bt1)) bt1, dispatched))"

definition getTotalPnL :: "'s Backtester \<Rightarrow> real" where
  "getTotalPnL bt = fold (\<lambda>trade total. total + pnl trade) (trade_log' bt) 0"

definition getNumTrades :: "'s Backtester \<Rightarrow> int" where
  "getNumTrades bt = int (length (trade_log' bt))"

section \<open>Evaluation on concrete inputs\<close>

text \<open>The definitions unfolded when the model is run on a concrete input.\<close>

lemmas indicator_defs = updateEMA_def getEMA_def isPriceAboveEMA_def updateMACD_def
  getMACDHistogram_def isMACDHistogramExpanding_def updateVWAP_def getVWAP_def
  isPriceAboveVWAP_def updateVolume_def getAverageVolume_def getRelativeVolume_def
  updatePrice_def getGapUpPercent_def Indicators_init_def

lemmas strategy_defs = NewsMomentumStrategy_init_def hasPosition_def checkVolumeSpike_def
  checkGapUp_def checkEMATrend_def checkEMACrossover_def checkVWAP_def checkMACD_def
  checkOrderBookImbalance_def checkEntryConditions_def checkExitConditions_def
  calculatePositionSize_def processMarketUpdate_def getCurrentRegime_def
  getPositionMultiplier_def

lemmas heap_defs = EventComparator_def push_heap_loop.simps push_heap_def
  adjust_heap_loop.simps adjust_heap_def pop_heap_def queue_push_def queue_pop_def
  queue_top_def

lemmas backtester_defs = map_find_def Backtester_init_def loadTickData_def registerStrategy_def
  static_cast_int64_def applyLatency_def closePosition_def updatePosition_def
  Backtester_processMarketUpdate_def processSignalEvent_def order_fill_def
  processOrderEvent_def processFillEvent_def close_remaining_def run_def run_loop.simps

text \<open>
  A tick stream for the symbol \<open>TICKER\<close>: a small dip, five quiet ticks, then two ticks
  that gap up on a volume spike. Every tick shows a bid size of 300 against an ask size
  of 100.
\<close>

definition quote :: "int \<Rightarrow> real \<Rightarrow> int \<Rightarrow> Tick" where
  "quote ts p v = \<lparr>timestamp_us = ts, price = p, volume = v, bid_size = 300, ask_size = 100\<rparr>"

definition quiet_ticks :: "Tick list" where
  "quiet_ticks = [quote 1000000 100 1000, quote 2000000 99 1000, quote 3000000 99 1000,
                  quote 4000000 99 1000, quote 5000000 99 1000, quote 6000000 99 1000]"

definition spike_tick :: Tick where
  "spike_tick = quote 7000000 120 100000"

definition second_spike_tick :: Tick where
  "second_spike_tick = quote 8000000 150 1000000"

definition as_updates :: "Tick list \<Rightarrow> (int \<times> Tick) list" where
  "as_updates ticks = map (\<lambda>t. (timestamp_us t, t)) ticks"

lemmas scenario_defs = quote_def quiet_ticks_def spike_tick_def second_spike_tick_def
  as_updates_def

section \<open>The regime classifier\<close>

lemma updateAndClassify_warmup:
  assumes "length (tick_history' rc) < 19"
  shows "\<exists>rc1. updateAndClassify t rc = Some rc1 \<and> current_regime' rc1 = CHOPPY
           \<and> length (tick_history' rc1) \<le> Suc (length (tick_history' rc))"
  using assms by (auto simp: updateAndClassify_def Let_def)

lemma updateAndClassifyAll_warmup:
  "length (tick_history' rc) + length ts < 20 \<Longrightarrow> current_regime' rc = CHOPPY \<Longrightarrow>
     \<exists>rc'. updateAndClassifyAll ts rc = Some rc' \<and> current_regime' rc' = CHOPPY"
proof (induction ts arbitrary: rc)
  case Nil
  then show ?case by simp
next
  case (Cons t ts)
  from Cons.prems have "length (tick_history' rc) < 19" by simp
  from updateAndClassify_warmup[OF this, of t] obtain rc1 where
    step: "updateAndClassify t rc = Some rc1" "current_regime' rc1 = CHOPPY"
          "length (tick_history' rc1) \<le> Suc (length (tick_history' rc))" by blast
  with Cons.prems have "length (tick_history' rc1) + length ts < 20" by simp
  from Cons.IH[OF this step(2)] step(1) show ?case by simp
qed

text \<open>
  Claim C9. Whatever ticks are fed to a freshly constructed classifier (any lookback, any
  number of clusters), as long as fewer than 20 of them have been fed every call of
  \<^verbatim>\<open>updateAndClassify\<close> returns, and the current regime is CHOPPY.
\<close>

theorem C9_regime_choppy_before_20_ticks:
  "length ts < 20 \<Longrightarrow>
     \<exists>rc'. updateAndClassifyAll ts (RegimeClassifier_init lookback k) = Some rc'
          \<and> getCurrentRegime rc' = CHOPPY"
  using updateAndClassifyAll_warmup[of "RegimeClassifier_init lookback k" ts]
  by (simp add: RegimeClassifier_init_def getCurrentRegime_def)

theorem C9_regime_choppy_before_20_ticks_witness:
  "length (quiet_ticks @ [spike_tick, second_spike_tick]) < 20 \<and>
   (\<exists>rc'. updateAndClassifyAll (quiet_ticks @ [spike_tick, second_spike_tick])
             (RegimeClassifier_init 100 2) = Some rc'
         \<and> getCurrentRegime rc' = CHOPPY)"
  using C9_regime_choppy_before_20_ticks[of "quiet_ticks @ [spike_tick, second_spike_tick]" 100 2]
  by (simp add: quiet_ticks_def)

section \<open>The strategy\<close>

lemma checkEMACrossover_keeps:
  "checkEMACrossover s = (b, s') \<Longrightarrow>
     position' s' = position' s \<and> symbol' s' = symbol' s \<and> indicators' s' = indicators' s
     \<and> regime_classifier' s' = regime_classifier' s
     \<and> min_relative_volume' s' = min_relative_volume' s
     \<and> min_gap_up_percent' s' = min_gap_up_percent' s
     \<and> min_bid_ask_ratio' s' = min_bid_ask_ratio' s"
  by (auto simp: checkEMACrossover_def Let_def split: if_splits)

lemma checkEntryConditions_keeps:
  "checkEntryConditions s t = (b, s') \<Longrightarrow>
     position' s' = position' s \<and> symbol' s' = symbol' s \<and> indicators' s' = indicators' s
     \<and> regime_classifier' s' = regime_classifier' s
     \<and> min_relative_volume' s' = min_relative_volume' s
     \<and> min_gap_up_percent' s' = min_gap_up_percent' s
     \<and> min_bid_ask_ratio' s' = min_bid_ask_ratio' s"
  by (auto simp: checkEntryConditions_def split: if_splits prod.splits option.splits
           dest!: checkEMACrossover_keeps)

lemma processMarketUpdate_position:
  "processMarketUpdate ts t s = Some (s', sigs) \<Longrightarrow>
     position' s' = position' s \<and> symbol' s' = symbol' s
     \<and> min_relative_volume' s' = min_relative_volume' s
     \<and> min_gap_up_percent' s' = min_gap_up_percent' s
     \<and> min_bid_ask_ratio' s' = min_bid_ask_ratio' s"
  by (auto simp: processMarketUpdate_def Let_def split: if_splits prod.splits option.splits
           dest!: checkEntryConditions_keeps)

lemma processMarketUpdate_flat_signals:
  "processMarketUpdate ts t s = Some (s', sigs) \<Longrightarrow> position' s = 0 \<Longrightarrow>
     sigs = [] \<or> (\<exists>q. sigs = [SignalEvent ts (symbol' s) LONG q (price t)])"
  by (auto simp: processMarketUpdate_def Let_def hasPosition_def
           split: if_splits prod.splits option.splits dest!: checkEntryConditions_keeps)

text \<open>
  Claim C2. A strategy whose \<^verbatim>\<open>position_\<close> is 0, as the constructor leaves it, is fed any
  sequence of market updates: \<^verbatim>\<open>position_\<close> is still 0 afterwards, \<^verbatim>\<open>hasPosition()\<close> is
  false, and every event it has emitted is a LONG signal for its symbol (so none is an
  EXIT signal).
\<close>

theorem C2_position_stays_zero_only_long_signals:
  assumes "position' s = 0"
      and "processMarketUpdates evs s = Some (s', sigs)"
  shows "position' s' = 0 \<and> \<not> hasPosition s'
         \<and> (\<forall>e \<in> set sigs. \<exists>ts q p. e = SignalEvent ts (symbol' s) LONG q p)"
  using assms
proof (induction evs arbitrary: s s' sigs)
  case Nil
  then show ?case by (simp add: hasPosition_def)
next
  case (Cons ev evs)
  obtain ts t where ev: "ev = (ts, t)" by (cases ev)
  from Cons.prems(2) ev obtain s1 sigs1 s2 sigs2 where
    step: "processMarketUpdate ts t s = Some (s1, sigs1)"
    and rest: "processMarketUpdates evs s1 = Some (s2, sigs2)"
    and res: "s' = s2" "sigs = sigs1 @ sigs2"
    by (auto split: option.splits)
  from processMarketUpdate_position[OF step] Cons.prems(1)
  have s1: "position' s1 = 0" "symbol' s1 = symbol' s" by simp_all
  from Cons.IH[OF s1(1) rest] s1(2)
  have ih: "position' s2 = 0" "\<not> hasPosition s2"
           "\<forall>e \<in> set sigs2. \<exists>ts q p. e = SignalEvent ts (symbol' s) LONG q p" by simp_all
  from processMarketUpdate_flat_signals[OF step Cons.prems(1)]
  have "\<forall>e \<in> set sigs1. \<exists>ts q p. e = SignalEvent ts (symbol' s) LONG q p" by auto
  with ih res show ?case by auto
qed

lemma two_spikes_signals:
  "map_option snd (processMarketUpdates (as_updates (quiet_ticks @ [spike_tick, second_spike_tick]))
                     (NewsMomentumStrategy_init ''TICKER'' None))
     = Some [SignalEvent 7000000 ''TICKER'' LONG 100 120, SignalEvent 8000000 ''TICKER'' LONG 100 150]"
  by (simp add: scenario_defs indicator_defs strategy_defs Let_def)

theorem C2_position_stays_zero_only_long_signals_witness:
  "\<exists>s'. processMarketUpdates (as_updates (quiet_ticks @ [spike_tick, second_spike_tick]))
            (NewsMomentumStrategy_init ''TICKER'' None)
          = Some (s', [SignalEvent 7000000 ''TICKER'' LONG 100 120,
                       SignalEvent 8000000 ''TICKER'' LONG 100 150])
        \<and> position' s' = 0 \<and> \<not> hasPosition s'"
proof -
  let ?s = "NewsMomentumStrategy_init ''TICKER'' None"
  from two_spikes_signals obtain s' where
    run: "processMarketUpdates (as_updates (quiet_ticks @ [spike_tick, second_spike_tick])) ?s
            = Some (s', [SignalEvent 7000000 ''TICKER'' LONG 100 120,
                         SignalEvent 8000000 ''TICKER'' LONG 100 150])"
    by auto
  have "position' ?s = 0" by (simp add: NewsMomentumStrategy_init_def)
  from C2_position_stays_zero_only_long_signals[OF this run] run show ?thesis by blast
qed

text \<open>
  Where \<^verbatim>\<open>checkEntryConditions\<close> leaves the crossover bit: \<^verbatim>\<open>checkEMACrossover\<close> is reached
  only behind the volume, gap and trend checks, and writes the bit only when both
  averages are non-zero.
\<close>

lemma checkEntryConditions_bit:
  assumes "checkEntryConditions s t = (b, s')"
  shows "was_long_ema_above_short' s' =
           (if checkVolumeSpike s \<and> checkGapUp s \<and> checkEMATrend s (price t)
               \<and> getEMA (indicators' s) 9 \<noteq> 0 \<and> getEMA (indicators' s) 90 \<noteq> 0
            then getEMA (indicators' s) 9 > getEMA (indicators' s) 90
            else was_long_ema_above_short' s)"
proof (cases "checkVolumeSpike s \<and> checkGapUp s \<and> checkEMATrend s (price t)")
  case False
  with assms show ?thesis by (auto simp: checkEntryConditions_def split: if_splits)
next
  case True
  obtain c s1 where x: "checkEMACrossover s = (c, s1)" by (cases "checkEMACrossover s")
  from assms True x have "was_long_ema_above_short' s' = was_long_ema_above_short' s1"
    by (auto simp: checkEntryConditions_def split: if_splits option.splits)
  moreover from x have "was_long_ema_above_short' s1 =
      (if getEMA (indicators' s) 9 \<noteq> 0 \<and> getEMA (indicators' s) 90 \<noteq> 0
       then getEMA (indicators' s) 9 > getEMA (indicators' s) 90
       else was_long_ema_above_short' s)"
    by (auto simp: checkEMACrossover_def Let_def split: if_splits)
  ultimately show ?thesis using True by simp
qed

text \<open>The state in which \<^verbatim>\<open>processMarketUpdate\<close> evaluates its exit and entry predicates:
  the classifier and the indicators have seen the tick.\<close>

lemma processMarketUpdate_cases:
  assumes "processMarketUpdate ts t s = Some (s', sigs)"
  obtains (holding) "hasPosition s" "was_long_ema_above_short' s' = was_long_ema_above_short' s"
                    "\<forall>e \<in> set sigs. \<exists>q p. e = SignalEvent ts (symbol' s) EXIT q p"
  | (flat) s1 b s2 where "\<not> hasPosition s" "position' s1 = position' s"
      "indicators' s1 = indicators' s'" "regime_classifier' s1 = regime_classifier' s'"
      "min_relative_volume' s1 = min_relative_volume' s" "min_gap_up_percent' s1 = min_gap_up_percent' s"
      "min_bid_ask_ratio' s1 = min_bid_ask_ratio' s"
      "was_long_ema_above_short' s1 = was_long_ema_above_short' s"
      "checkEntryConditions s1 t = (b, s2)"
      "was_long_ema_above_short' s' = was_long_ema_above_short' s2"
      "sigs \<noteq> [] \<longrightarrow> b"
      "(regime_classifier' s' = None) = (regime_classifier' s = None)"
proof -
  from assms obtain rc' where rc: "(case regime_classifier' s of None \<Rightarrow> Some None
        | Some rc \<Rightarrow> map_option Some (updateAndClassify t rc)) = Some rc'"
    by (auto simp: processMarketUpdate_def split: option.splits)
  define ind where "ind = updateVolume (volume t) ts
                     (updateVWAP (price t) (volume t) ts
                       (updateMACD (price t)
                         (updateEMA (price t) 200
                           (updateEMA (price t) 90
                             (updateEMA (price t) 9
                               (updatePrice (price t) (indicators' s)))))))"
  define s1 where "s1 = s\<lparr>regime_classifier' := rc', indicators' := ind\<rparr>"
  have hp: "hasPosition s1 = hasPosition s" by (simp add: s1_def hasPosition_def)
  show thesis
  proof (cases "hasPosition s")
    case True
    with assms rc hp have "was_long_ema_above_short' s' = was_long_ema_above_short' s"
      and "\<forall>e \<in> set sigs. \<exists>q p. e = SignalEvent ts (symbol' s) EXIT q p"
      by (auto simp: processMarketUpdate_def Let_def s1_def ind_def split: if_splits)
    with True show thesis by (rule holding)
  next
    case False
    obtain b s2 where ce: "checkEntryConditions s1 t = (b, s2)"
      by (cases "checkEntryConditions s1 t")
    from checkEntryConditions_keeps[OF ce]
    have keep: "indicators' s2 = ind" "regime_classifier' s2 = rc'" by (simp_all add: s1_def)
    from rc have none: "(rc' = None) = (regime_classifier' s = None)"
      by (auto split: option.splits)
    from assms rc hp False ce have res:
      "indicators' s' = indicators' s2" "regime_classifier' s' = regime_classifier' s2"
      "was_long_ema_above_short' s' = was_long_ema_above_short' s2" "sigs \<noteq> [] \<longrightarrow> b"
      unfolding processMarketUpdate_def Let_def s1_def[symmetric] ind_def[symmetric]
      by (auto simp: s1_def[symmetric] split: if_splits)
    show thesis
      by (rule flat[of s1 b s2]) (use False ce res keep none in \<open>simp_all add: s1_def\<close>)
  qed
qed

text \<open>
  Claim C7 fails as stated. A freshly constructed strategy (with the classifier of
  \<^verbatim>\<open>main\<close>) sees a tick at 100 and then a tick at 110: after the second update EMA(9) is
  above EMA(90), and the bit \<^verbatim>\<open>was_long_ema_above_short_\<close> is still false, because the
  volume check fails before \<^verbatim>\<open>checkEMACrossover\<close> is reached.
\<close>

definition crossover_view :: "NewsMomentumStrategy \<Rightarrow> bool \<times> bool" where
  "crossover_view s =
     (getEMA (indicators' s) 9 > getEMA (indicators' s) 90, was_long_ema_above_short' s)"

theorem C7_bit_not_updated_counterexample:
  "map_option (crossover_view \<circ> fst)
     (processMarketUpdates (as_updates [quote 1000000 100 1000, quote 2000000 110 1000])
        (NewsMomentumStrategy_init ''TICKER'' (Some (RegimeClassifier_init 100 2))))
   = Some (True, False)"
  by (simp add: scenario_defs indicator_defs strategy_defs crossover_view_def
                updateAndClassify_def RegimeClassifier_init_def Let_def)

text \<open>
  Claim C7 as amended. After a market update the bit holds the truth value of
  EMA(9) > EMA(90) for that tick if the strategy is flat, the volume-spike, gap-up and
  EMA-trend checks pass on that tick, and EMA(9) and EMA(90) are both non-zero; on every
  other update the bit keeps its previous value.
\<close>

theorem C7_bit_updated_behind_the_gates:
  assumes "processMarketUpdate ts tick s = Some (s', sigs)"
  shows "was_long_ema_above_short' s' =
           (if \<not> hasPosition s \<and> checkVolumeSpike s' \<and> checkGapUp s'
               \<and> checkEMATrend s' (price tick)
               \<and> getEMA (indicators' s') 9 \<noteq> 0 \<and> getEMA (indicators' s') 90 \<noteq> 0
            then getEMA (indicators' s') 9 > getEMA (indicators' s') 90
            else was_long_ema_above_short' s)"
  using assms
proof (cases rule: processMarketUpdate_cases)
  case holding
  then show ?thesis by simp
next
  case (flat s1 b s2)
  from processMarketUpdate_position[OF assms] checkEntryConditions_keeps[OF flat(9)] flat
  have same: "checkVolumeSpike s' = checkVolumeSpike s1" "checkGapUp s' = checkGapUp s1"
             "checkEMATrend s' (price tick) = checkEMATrend s1 (price tick)"
    by (simp_all add: checkVolumeSpike_def checkGapUp_def checkEMATrend_def)
  from checkEntryConditions_bit[OF flat(9)] flat same show ?thesis by simp
qed

theorem C7_bit_updated_behind_the_gates_witness:
  "\<exists>s s' sigs. processMarketUpdates (as_updates quiet_ticks) (NewsMomentumStrategy_init ''TICKER'' None)
                  = Some (s, [])
      \<and> processMarketUpdate 7000000 spike_tick s = Some (s', sigs)
      \<and> \<not> was_long_ema_above_short' s \<and> was_long_ema_above_short' s'
      \<and> getEMA (indicators' s') 9 > getEMA (indicators' s') 90"
proof -
  have "\<exists>s s' sigs. processMarketUpdates (as_updates quiet_ticks) (NewsMomentumStrategy_init ''TICKER'' None)
                  = Some (s, [])
      \<and> processMarketUpdate 7000000 spike_tick s = Some (s', sigs)
      \<and> \<not> was_long_ema_above_short' s \<and> \<not> hasPosition s
      \<and> checkVolumeSpike s' \<and> checkGapUp s' \<and> checkEMATrend s' (price spike_tick)
      \<and> getEMA (indicators' s') 9 \<noteq> 0 \<and> getEMA (indicators' s') 90 \<noteq> 0
      \<and> getEMA (indicators' s') 9 > getEMA (indicators' s') 90"
    by (simp add: scenario_defs indicator_defs strategy_defs Let_def)
  then obtain s s' sigs where
    a: "processMarketUpdates (as_updates quiet_ticks) (NewsMomentumStrategy_init ''TICKER'' None) = Some (s, [])"
    and b: "processMarketUpdate 7000000 spike_tick s = Some (s', sigs)"
    and c: "\<not> was_long_ema_above_short' s" "\<not> hasPosition s"
      "checkVolumeSpike s'" "checkGapUp s'" "checkEMATrend s' (price spike_tick)"
      "getEMA (indicators' s') 9 \<noteq> 0" "getEMA (indicators' s') 90 \<noteq> 0"
      "getEMA (indicators' s') 9 > getEMA (indicators' s') 90"
    by blast
  from C7_bit_updated_behind_the_gates[OF b] c have "was_long_ema_above_short' s'" by simp
  with a b c show ?thesis by blast
qed

subsection \<open>The classifier once the override condition holds\<close>

lemma less_sqrt_iff: "0 \<le> c \<Longrightarrow> c < sqrt x \<longleftrightarrow> c * c < x"
proof
  assume c: "0 \<le> c" and "c < sqrt x"
  then have "c\<^sup>2 < (sqrt x)\<^sup>2" by (intro power_strict_mono) auto
  moreover from c \<open>c < sqrt x\<close> have "0 < x" by (metis le_less_trans real_sqrt_gt_0_iff)
  ultimately show "c * c < x" by (simp add: power2_eq_square)
next
  assume c: "0 \<le> c" and "c * c < x"
  then have "sqrt (c * c) < sqrt x" by (simp only: real_sqrt_less_iff)
  moreover from c have "sqrt (c * c) = c" by simp
  ultimately show "c < sqrt x" by simp
qed

lemma performKMeans_fields:
  "performKMeans fs rc = Some rc' \<Longrightarrow> rc' = rc\<lparr>centroids' := centroids' rc'\<rparr>"
  by (auto simp: performKMeans_def Let_def split: if_splits)

lemma performKMeans_Some: "num_clusters' rc \<noteq> 0 \<Longrightarrow> \<exists>rc'. performKMeans fs rc = Some rc'"
  by (auto simp: performKMeans_def Let_def)

text \<open>The tick history after \<^verbatim>\<open>updateAndClassify\<close> has pushed the tick and dropped the
  oldest one beyond the lookback.\<close>

definition history_after :: "Tick \<Rightarrow> RegimeClassifier \<Rightarrow> Tick list" where
  "history_after tick rc =
     (let h = tick_history' rc @ [tick] in if length h > lookback' rc then tl h else h)"

text \<open>The condition under which \<^verbatim>\<open>updateAndClassify\<close> reports TRENDING whichever centroid is
  nearest: \<^verbatim>\<open>current_feature.volatility > 0.02 && current_feature.direction > 0.01\<close>.\<close>

definition trend_override :: "Tick list \<Rightarrow> bool" where
  "trend_override h = (calculateVolatility h > 0.02 \<and> calculateDirection h > 0.01)"

lemma trend_override_iff:
  "trend_override h =
     (\<not> length h < 2 \<and> returns_of h \<noteq> [] \<and>
      0.0004 < (let rets = returns_of h;
                    mean = sum_list rets / real (length rets)
                in sum_list (map (\<lambda>r. (r - mean) * (r - mean)) rets) / real (length rets)) \<and>
      0.01 < \<bar>sum_list (returns_of h)\<bar> / real (length h))"
proof -
  have "(0.02::real) * 0.02 = 0.0004" by simp
  then show ?thesis
    using less_sqrt_iff[of "0.02"]
    by (auto simp: trend_override_def calculateVolatility_def calculateDirection_def Let_def)
qed

lemma updateAndClassify_trending:
  assumes "num_clusters' rc \<noteq> 0" and "20 \<le> length (history_after tick rc)"
      and "trend_override (history_after tick rc)"
  shows "updateAndClassify tick rc =
           Some (rc\<lparr>tick_history' := history_after tick rc,
                    centroids' := centroids' (the (performKMeans (extractFeatures (history_after tick rc))
                                                   (rc\<lparr>tick_history' := history_after tick rc\<rparr>))),
                    current_regime' := TRENDING\<rparr>)"
proof -
  let ?h = "history_after tick rc"
  let ?rc1 = "rc\<lparr>tick_history' := ?h\<rparr>"
  from assms(1) have "num_clusters' ?rc1 \<noteq> 0" by simp
  from performKMeans_Some[OF this] obtain rc2 where
    k: "performKMeans (extractFeatures ?h) ?rc1 = Some rc2" by blast
  from performKMeans_fields[OF k] have rc2: "rc2 = ?rc1\<lparr>centroids' := centroids' rc2\<rparr>" .
  have "updateAndClassify tick rc = Some (rc2\<lparr>current_regime' := TRENDING\<rparr>)"
    using assms(2-3) k
    by (simp add: updateAndClassify_def history_after_def Let_def trend_override_def)
  also have "rc2\<lparr>current_regime' := TRENDING\<rparr>
               = ?rc1\<lparr>centroids' := centroids' rc2, current_regime' := TRENDING\<rparr>"
    by (subst rc2) simp
  finally show ?thesis using k by simp
qed

lemma updateAndClassify_warm:
  "length (history_after tick rc) < 20 \<Longrightarrow>
     updateAndClassify tick rc
       = Some (rc\<lparr>tick_history' := history_after tick rc, current_regime' := CHOPPY\<rparr>)"
  by (simp add: updateAndClassify_def history_after_def Let_def)

lemmas classifier_eval = updateAndClassify_warm updateAndClassify_trending history_after_def
  trend_override_iff RegimeClassifier_init_def

subsection \<open>The entry predicate\<close>





text \<open>A classifier that has already been fed thirteen ticks at a price of 100 when the
  strategy is attached to it.\<close>

definition earlier_ticks :: "Tick list" where
  "earlier_ticks = [quote 0 100 1000, quote 0 100 1000, quote 0 100 1000, quote 0 100 1000,
                    quote 0 100 1000, quote 0 100 1000, quote 0 100 1000, quote 0 100 1000,
                    quote 0 100 1000, quote 0 100 1000, quote 0 100 1000, quote 0 100 1000,
                    quote 0 100 1000]"

definition fed_classifier :: RegimeClassifier where
  "fed_classifier = (RegimeClassifier_init 100 2)\<lparr>tick_history' := earlier_ticks\<rparr>"

lemma fed_classifier_reached:
  "updateAndClassifyAll earlier_ticks (RegimeClassifier_init 100 2) = Some fed_classifier"
  by (simp add: earlier_ticks_def fed_classifier_def classifier_eval)


section \<open>Orders and fills\<close>

lemma price_at_fill_find:
  "price_at_fill ticks fts p =
     (case find (\<lambda>t. timestamp_us t \<ge> fts) ticks of Some t \<Rightarrow> price t | None \<Rightarrow> p)"
  by (induction ticks) auto

lemma find_first_in_sorted:
  assumes "sorted (map timestamp_us ticks)"
      and "find (\<lambda>t. timestamp_us t \<ge> fts) ticks = Some t"
  shows "\<exists>i < length ticks. ticks ! i = t \<and> timestamp_us t \<ge> fts
           \<and> (\<forall>j < i. timestamp_us (ticks ! j) < fts)
           \<and> (\<forall>t' \<in> set ticks. timestamp_us t' \<ge> fts \<longrightarrow> timestamp_us t \<le> timestamp_us t')"
proof -
  from assms(2) obtain i where i: "i < length ticks" "ticks ! i = t" "timestamp_us t \<ge> fts"
      "\<forall>j < i. \<not> timestamp_us (ticks ! j) \<ge> fts"
    by (auto simp: find_Some_iff)
  have "timestamp_us t \<le> timestamp_us t'" if "t' \<in> set ticks" "timestamp_us t' \<ge> fts" for t'
  proof -
    from that(1) obtain k where k: "k < length ticks" "ticks ! k = t'"
      by (auto simp: in_set_conv_nth)
    with that(2) i(4) have "i \<le> k" by (metis not_le_imp_less)
    with assms(1) k i(1) have "map timestamp_us ticks ! i \<le> map timestamp_us ticks ! k"
      by (intro sorted_nth_mono) simp_all
    with k i show ?thesis by simp
  qed
  with i show ?thesis by (intro exI[of _ i]) auto
qed

text \<open>
  Claim C8. An order with timestamp \<open>ts\<close> is processed; the tick array of its symbol
  (empty if the symbol has none) is sorted by timestamp. Then exactly one event is
  pushed on the queue, a fill for the same symbol, direction and quantity whose
  timestamp is \<open>ts\<close> plus the latency in microseconds (\<open>latency_ms \<sqdot> 1000\<close> as a 64-bit
  integer); its price is the price of the first tick of the symbol at or after that
  timestamp (the earliest such tick), or the order price when there is no such tick;
  and its commission is price \<open>\<sqdot>\<close> quantity \<open>\<sqdot>\<close> 0.0001.
\<close>

theorem C8_order_becomes_fill:
  assumes "ticks = (case map_find (tick_data' bt) name of Some tks \<Rightarrow> tks | None \<Rightarrow> [])"
      and "sorted (map timestamp_us ticks)"
      and "fts = ts + static_cast_int64 (latency_ms' bt * 1000)"
  shows "\<exists>fp. event_queue' (processOrderEvent ts name dir qty p bt)
                 = queue_push (FillEvent fts name dir qty fp (fp * qty * 0.0001)) (event_queue' bt)
          \<and> (case find (\<lambda>t. timestamp_us t \<ge> fts) ticks of
                None \<Rightarrow> fp = p
              | Some t \<Rightarrow> fp = price t
                   \<and> (\<exists>i < length ticks. ticks ! i = t \<and> (\<forall>j < i. timestamp_us (ticks ! j) < fts))
                   \<and> (\<forall>t' \<in> set ticks. timestamp_us t' \<ge> fts \<longrightarrow> timestamp_us t \<le> timestamp_us t'))"
proof -
  define fp where "fp = price_at_fill ticks fts p"
  have q: "event_queue' (processOrderEvent ts name dir qty p bt)
             = queue_push (FillEvent fts name dir qty fp (fp * qty * 0.0001)) (event_queue' bt)"
    using assms(1,3)
    by (simp add: processOrderEvent_def order_fill_def applyLatency_def fp_def Let_def
             split: option.splits)
  show ?thesis
  proof (cases "find (\<lambda>t. timestamp_us t \<ge> fts) ticks")
    case None
    with q show ?thesis by (auto simp: fp_def price_at_fill_find)
  next
    case (Some t)
    from find_first_in_sorted[OF assms(2) Some] Some q show ?thesis
      by (auto simp: fp_def price_at_fill_find)
  qed
qed

text \<open>An order placed on the first spike, with the latency of \<^verbatim>\<open>main\<close> (200 ms): the fill
  is stamped 200000 microseconds later and priced at the next tick.\<close>

definition loaded_backtester :: "Tick list \<Rightarrow> RegimeClassifier option \<Rightarrow> NewsMomentumStrategy Backtester" where
  "loaded_backtester ticks rc =
     registerStrategy ''TICKER'' (NewsMomentumStrategy_init ''TICKER'' rc)
       (snd (loadTickData ticks ''TICKER'' (Backtester_init 200)))"

theorem C8_order_becomes_fill_witness:
  "event_queue' (processOrderEvent 7000000 ''TICKER'' LONG 100 120
                   ((loaded_backtester (quiet_ticks @ [spike_tick, second_spike_tick]) None)
                      \<lparr>event_queue' := []\<rparr>))
     = [FillEvent 7200000 ''TICKER'' LONG 100 150 1.5]"
proof -
  let ?ticks = "quiet_ticks @ [spike_tick, second_spike_tick]"
  let ?bt = "(loaded_backtester ?ticks None)\<lparr>event_queue' := []\<rparr>"
  have a: "?ticks = (case map_find (tick_data' ?bt) ''TICKER'' of Some tks \<Rightarrow> tks | None \<Rightarrow> [])"
    by (simp add: loaded_backtester_def backtester_defs scenario_defs)
  have b: "sorted (map timestamp_us ?ticks)" by (simp add: scenario_defs)
  have c: "7200000 = 7000000 + static_cast_int64 (latency_ms' ?bt * 1000)"
    by (simp add: loaded_backtester_def backtester_defs scenario_defs)
  have d: "find (\<lambda>t. timestamp_us t \<ge> 7200000) ?ticks = Some second_spike_tick"
    by (simp add: scenario_defs)
  from C8_order_becomes_fill[OF a b c, where dir = LONG and qty = 100 and p = 120] d
  show ?thesis
    by (auto simp: scenario_defs heap_defs)
qed

section \<open>Positions\<close>

text \<open>
  Claim C5, the quantity, price and timestamp: a LONG fill on a flat position records
  them. (A lemma: the claim as a whole fails on the regime label, below.)
\<close>

lemma map_find_map_set: "map_find (map_set k v m) k = Some v"
  by (induction m) (auto simp: map_find_def)

lemma map_find_map_set_other: "k' \<noteq> k \<Longrightarrow> map_find (map_set k v m) k' = map_find m k'"
  by (induction m) (auto simp: map_find_def)

lemma updatePosition_opens:
  assumes "case map_find (positions' bt) name of None \<Rightarrow> True | Some pos \<Rightarrow> pos_quantity pos = 0"
  shows "\<exists>pos. map_find (positions' (updatePosition ts name LONG qty fill_price bt)) name = Some pos
           \<and> pos_quantity pos = qty \<and> pos_avg_price pos = fill_price
           \<and> pos_direction pos = LONG \<and> pos_entry_timestamp_us pos = ts
           \<and> pos_entry_regime pos =
               (if map_find (strategies' bt) name \<noteq> None then ''TRENDING''
                else case map_find (positions' bt) name of
                       None \<Rightarrow> ''UNKNOWN'' | Some pos0 \<Rightarrow> pos_entry_regime pos0)"
  using assms
  by (cases "map_find (positions' bt) name")
     (auto simp: updatePosition_def Let_def map_find_map_set)

text \<open>
  Claim C5 at a failing input. The strategy registered for \<open>TICKER\<close> has a classifier
  that has seen no tick and reports CHOPPY; a LONG fill opens the position, and the
  entry regime recorded is the constant \<open>TRENDING\<close>: the classifier is never asked.
\<close>

definition entry_regime_view :: "NewsMomentumStrategy Backtester \<Rightarrow> Regime option option \<times> string option" where
  "entry_regime_view bt =
     (map_option (map_option getCurrentRegime \<circ> regime_classifier') (map_find (strategies' bt) ''TICKER''),
      map_option pos_entry_regime (map_find (positions' bt) ''TICKER''))"

theorem C5_entry_regime_is_hard_coded:
  "entry_regime_view
     (updatePosition 7200000 ''TICKER'' LONG 150 120
        (registerStrategy ''TICKER''
           (NewsMomentumStrategy_init ''TICKER'' (Some (RegimeClassifier_init 100 2)))
           (Backtester_init 200)))
   = (Some (Some CHOPPY), Some ''TRENDING'')"
  by (simp add: entry_regime_view_def backtester_defs strategy_defs RegimeClassifier_init_def Let_def)

section \<open>The event queue is a binary heap\<close>

subsection \<open>Index arithmetic\<close>

lemma parent_bounds: "0 < j \<Longrightarrow> (j - 1) div 2 = i \<Longrightarrow> 2 * i + 1 \<le> j \<and> j \<le> 2 * i + (2::nat)"
  by presburger

lemma parent_of_child: "(2 * i + 1 - 1) div 2 = (i::nat)" "(2 * i + 2 - 1) div 2 = i"
  by presburger+

lemma even_half: "even n \<Longrightarrow> 2 \<le> n \<Longrightarrow> 2 * ((n - 2) div 2) + 2 = (n::nat)"
  by presburger

lemma loop_exit_bound: "\<not> i < (n - 1) div 2 \<Longrightarrow> n \<le> 2 * i + (2::nat)"
  by presburger

lemma loop_continue_bound: "i < (n - 1) div 2 \<Longrightarrow> 2 * i + 2 < (n::nat)"
  by presburger

lemma half_of_even: "n = 2 * i + 2 \<Longrightarrow> even n \<and> i = (n - 2) div (2::nat)"
  by presburger

lemma no_child:
  assumes "\<not> i < (n - 1) div 2" "\<not> (even n \<and> i = (n - 2) div 2)" "0 < j" "j < n"
  shows "(j - 1) div 2 \<noteq> (i::nat)"
proof
  assume "(j - 1) div 2 = i"
  from parent_bounds[OF assms(3) this] loop_exit_bound[OF assms(1)] assms(4)
  have "n = 2 * i + 2" by linarith
  from half_of_even[OF this] assms(2) show False by simp
qed

lemma only_child:
  assumes "even n" "i = (n - 2) div 2" "0 < j" "j < n" "(j - 1) div 2 = i"
  shows "j = n - (1::nat)"
proof -
  from assms(3,4) have "2 \<le> n" by linarith
  from even_half[OF assms(1) this] assms(2) have "n = 2 * i + 2" by simp
  with parent_bounds[OF assms(3,5)] assms(4) show ?thesis by linarith
qed

subsection \<open>Heap order, and heap order around a hole\<close>

definition heap_order :: "Event list \<Rightarrow> bool" where
  "heap_order h =
     (\<forall>j. 0 < j \<and> j < length h \<longrightarrow> getTimestamp (h ! ((j - 1) div 2)) \<le> getTimestamp (h ! j))"

definition heap_hole :: "Event list \<Rightarrow> nat \<Rightarrow> bool" where
  "heap_hole h i =
     ((\<forall>j. 0 < j \<and> j < length h \<and> j \<noteq> i \<and> (j - 1) div 2 \<noteq> i
            \<longrightarrow> getTimestamp (h ! ((j - 1) div 2)) \<le> getTimestamp (h ! j))
      \<and> (\<forall>j. 0 < j \<and> j < length h \<and> (j - 1) div 2 = i \<and> 0 < i
            \<longrightarrow> getTimestamp (h ! ((i - 1) div 2)) \<le> getTimestamp (h ! j)))"

lemma heap_order_hole: "heap_order h \<Longrightarrow> heap_hole h i"
proof -
  assume h: "heap_order h"
  have "getTimestamp (h ! ((i - 1) div 2)) \<le> getTimestamp (h ! j)"
    if "0 < j" "j < length h" "(j - 1) div 2 = i" "0 < i" for j
  proof -
    from that have "i < length h" by linarith
    with h that have "getTimestamp (h ! ((i - 1) div 2)) \<le> getTimestamp (h ! i)"
      by (simp add: heap_order_def)
    moreover from h that have "getTimestamp (h ! i) \<le> getTimestamp (h ! j)"
      by (auto simp: heap_order_def)
    ultimately show ?thesis by linarith
  qed
  with h show ?thesis by (auto simp: heap_hole_def heap_order_def)
qed

lemma push_heap_loop_length: "length (push_heap_loop h i t v) = length h"
  by (induction h i t v rule: push_heap_loop.induct)
     (subst push_heap_loop.simps, simp add: Let_def)

lemma push_heap_loop_mset:
  "i < length h \<Longrightarrow> mset (push_heap_loop h i t v) = add_mset v (mset h - {#h ! i#})"
proof (induction h i t v rule: push_heap_loop.induct)
  case (1 h i t v)
  let ?p = "(i - 1) div 2"
  show ?case
  proof (cases "i > t \<and> EventComparator (h ! ?p) v")
    case True
    then have p: "?p < i" by linarith
    with 1 have pl: "?p < length h" by linarith
    from True 1 pl have "mset (push_heap_loop (h[i := h ! ?p]) ?p t v)
                       = add_mset v (mset (h[i := h ! ?p]) - {#h[i := h ! ?p] ! ?p#})"
      by simp
    also from p have "h[i := h ! ?p] ! ?p = h ! ?p" by simp
    also from 1(2) have "mset (h[i := h ! ?p]) = add_mset (h ! ?p) (mset h - {#h ! i#})"
      by (simp add: mset_update)
    finally show ?thesis using True by (subst push_heap_loop.simps) (simp add: Let_def)
  next
    case False
    with 1(2) show ?thesis
      by (subst push_heap_loop.simps) (auto simp: Let_def mset_update)
  qed
qed

lemma push_heap_loop_order:
  assumes "heap_hole h i" and "i < length h"
      and "\<forall>j. 0 < j \<and> j < length h \<and> (j - 1) div 2 = i \<longrightarrow> getTimestamp v \<le> getTimestamp (h ! j)"
  shows "heap_order (push_heap_loop h i 0 v)"
  using assms
proof (induction h i "0::nat" v rule: push_heap_loop.induct)
  case (1 h i v)
  let ?p = "(i - 1) div 2"
  let ?k = getTimestamp
  show ?case
  proof (cases "i > 0 \<and> EventComparator (h ! ?p) v")
    case True
    then have i0: "0 < i" and gt: "?k v < ?k (h ! ?p)" by (simp_all add: EventComparator_def)
    from i0 have p: "?p < i" by linarith
    let ?h = "h[i := h ! ?p]"
    from 1(2) have A: "\<And>j. 0 < j \<Longrightarrow> j < length h \<Longrightarrow> j \<noteq> i \<Longrightarrow> (j - 1) div 2 \<noteq> i
                        \<Longrightarrow> ?k (h ! ((j - 1) div 2)) \<le> ?k (h ! j)"
      and B: "\<And>j. 0 < j \<Longrightarrow> j < length h \<Longrightarrow> (j - 1) div 2 = i \<Longrightarrow> 0 < i
                        \<Longrightarrow> ?k (h ! ?p) \<le> ?k (h ! j)"
      by (auto simp: heap_hole_def)
    from 1(4) have C: "\<And>j. 0 < j \<Longrightarrow> j < length h \<Longrightarrow> (j - 1) div 2 = i \<Longrightarrow> ?k v \<le> ?k (h ! j)"
      by auto
    have hole: "heap_hole ?h ?p"
      unfolding heap_hole_def
    proof (intro conjI allI impI)
      fix j assume j: "0 < j \<and> j < length ?h \<and> j \<noteq> ?p \<and> (j - 1) div 2 \<noteq> ?p"
      then have ji: "j \<noteq> i" by auto
      show "?k (?h ! ((j - 1) div 2)) \<le> ?k (?h ! j)"
      proof (cases "(j - 1) div 2 = i")
        case True
        with j ji i0 1(3) B[of j] show ?thesis by simp
      next
        case False
        with j ji A[of j] show ?thesis by simp
      qed
    next
      fix j assume j: "0 < j \<and> j < length ?h \<and> (j - 1) div 2 = ?p \<and> 0 < ?p"
      have pp: "(?p - 1) div 2 \<noteq> i" using p by linarith
      from j p 1(3) have Ap: "?k (h ! ((?p - 1) div 2)) \<le> ?k (h ! ?p)"
        by (intro A) auto
      show "?k (?h ! ((?p - 1) div 2)) \<le> ?k (?h ! j)"
      proof (cases "j = i")
        case True
        with pp Ap 1(3) show ?thesis by simp
      next
        case False
        with j p have "?k (h ! ?p) \<le> ?k (h ! j)" using A[of j] by auto
        with False pp Ap show ?thesis by simp
      qed
    qed
    have kids: "\<forall>j. 0 < j \<and> j < length ?h \<and> (j - 1) div 2 = ?p \<longrightarrow> ?k v \<le> ?k (?h ! j)"
    proof (intro allI impI)
      fix j assume j: "0 < j \<and> j < length ?h \<and> (j - 1) div 2 = ?p"
      show "?k v \<le> ?k (?h ! j)"
      proof (cases "j = i")
        case True
        with gt 1(3) show ?thesis by simp
      next
        case False
        with j p have "?k (h ! ?p) \<le> ?k (h ! j)" using A[of j] by auto
        with False gt show ?thesis by simp
      qed
    qed
    from p 1(3) have "?p < length ?h" by simp
    from "1.hyps"[OF refl _ hole this kids] True
    have "heap_order (push_heap_loop ?h ?p 0 v)" by simp
    with True show ?thesis by (subst push_heap_loop.simps) (simp add: Let_def)
  next
    case False
    then have res: "push_heap_loop h i 0 v = h[i := v]"
      by (subst push_heap_loop.simps) (auto simp: Let_def)
    from False have ex: "0 < i \<Longrightarrow> ?k (h ! ?p) \<le> ?k v" by (auto simp: EventComparator_def)
    have "?k (h[i := v] ! ((j - 1) div 2)) \<le> ?k (h[i := v] ! j)" if j: "0 < j" "j < length h" for j
    proof (cases "j = i")
      case True
      with j have "(j - 1) div 2 \<noteq> i" by linarith
      with True ex j 1(3) show ?thesis by simp
    next
      case ji: False
      show ?thesis
      proof (cases "(j - 1) div 2 = i")
        case True
        with ji j 1(3,4) show ?thesis by simp
      next
        case False
        with ji j 1(2) show ?thesis by (simp add: heap_hole_def)
      qed
    qed
    with res show ?thesis by (simp add: heap_order_def)
  qed
qed


lemma heap_order_top:
  assumes "heap_order h" and "i < length h"
  shows "getTimestamp (h ! 0) \<le> getTimestamp (h ! i)"
  using assms(2)
proof (induction i rule: less_induct)
  case (less i)
  show ?case
  proof (cases "i = 0")
    case True
    then show ?thesis by simp
  next
    case False
    then have p: "(i - 1) div 2 < i" by linarith
    with less.prems have "(i - 1) div 2 < length h" by linarith
    from less.IH[OF p this] assms(1) False less.prems show ?thesis
      by (fastforce simp: heap_order_def)
  qed
qed

lemma queue_top_min:
  "heap_order q \<Longrightarrow> e \<in> set q \<Longrightarrow> getTimestamp (queue_top q) \<le> getTimestamp e"
  by (auto simp: queue_top_def in_set_conv_nth heap_order_top)

lemma heap_order_butlast: "heap_order h \<Longrightarrow> heap_order (butlast h)"
  by (auto simp: heap_order_def nth_butlast)

lemma queue_push_order: "heap_order q \<Longrightarrow> heap_order (queue_push e q)"
proof -
  assume q: "heap_order q"
  have child: "(j - 1) div 2 \<noteq> length q" if "0 < j" "j < length (q @ [e])" for j
    using that by auto
  have "getTimestamp ((q @ [e]) ! ((j - 1) div 2)) \<le> getTimestamp ((q @ [e]) ! j)"
    if "0 < j" "j < length (q @ [e])" "j \<noteq> length q" for j
  proof -
    from that have j: "j < length q" by simp
    then have "(j - 1) div 2 < length q" by linarith
    with q j that(1) show ?thesis by (simp add: heap_order_def nth_append)
  qed
  with child have hole: "heap_hole (q @ [e]) (length q)"
    unfolding heap_hole_def by blast
  have "heap_order (push_heap_loop (q @ [e]) (length q) 0 e)"
    by (rule push_heap_loop_order[OF hole]) (use child in auto)
  then show ?thesis by (simp add: queue_push_def push_heap_def)
qed

lemma queue_push_mset: "mset (queue_push e q) = add_mset e (mset q)"
  by (simp add: queue_push_def push_heap_def push_heap_loop_mset)

lemma push_heap_loop_frame:
  "i < length xs \<Longrightarrow> push_heap_loop (xs @ ys) i t v = push_heap_loop xs i t v @ ys"
proof (induction xs i t v rule: push_heap_loop.induct)
  case (1 h i t v)
  let ?p = "(i - 1) div 2"
  from 1(2) have p: "?p < length h" by linarith
  show ?case
  proof (cases "i > t \<and> EventComparator (h ! ?p) v")
    case True
    with 1 p have "push_heap_loop (h[i := h ! ?p] @ ys) ?p t v
                    = push_heap_loop (h[i := h ! ?p]) ?p t v @ ys" by simp
    with True p 1(2) show ?thesis
      by (subst (1 2) push_heap_loop.simps) (simp add: Let_def nth_append list_update_append1)
  next
    case False
    with p 1(2) show ?thesis
      by (subst (1 2) push_heap_loop.simps) (auto simp: Let_def nth_append list_update_append1)
  qed
qed

lemma adjust_heap_loop_frame:
  "i < length xs \<Longrightarrow> len \<le> length xs \<Longrightarrow>
     adjust_heap_loop (xs @ ys) i s len
       = (case adjust_heap_loop xs i s len of (h1, i1, s1) \<Rightarrow> (h1 @ ys, i1, s1))"
proof (induction xs i s len rule: adjust_heap_loop.induct)
  case (1 h i s len)
  show ?case
  proof (cases "s < (len - 1) div 2")
    case True
    let ?sc = "2 * (s + 1)"
    from loop_continue_bound[OF True] 1(3) have sc: "?sc < length h" "?sc - 1 < length h"
      by simp_all
    note ih = "1.IH"[OF True refl refl]
    show ?thesis
    proof (cases "EventComparator (h ! ?sc) (h ! (?sc - 1))")
      case ec: True
      with ih sc 1(3) have "adjust_heap_loop (h[i := h ! (?sc - 1)] @ ys) (?sc - 1) (?sc - 1) len
            = (case adjust_heap_loop (h[i := h ! (?sc - 1)]) (?sc - 1) (?sc - 1) len of
                 (h1, i1, s1) \<Rightarrow> (h1 @ ys, i1, s1))"
        by simp
      with True ec sc 1(2) show ?thesis
        by (subst (1 2) adjust_heap_loop.simps)
           (simp add: Let_def nth_append list_update_append1)
    next
      case ec: False
      with ih sc 1(3) have "adjust_heap_loop (h[i := h ! ?sc] @ ys) ?sc ?sc len
            = (case adjust_heap_loop (h[i := h ! ?sc]) ?sc ?sc len of
                 (h1, i1, s1) \<Rightarrow> (h1 @ ys, i1, s1))"
        by simp
      with True ec sc 1(2) show ?thesis
        by (subst (1 2) adjust_heap_loop.simps)
           (simp add: Let_def nth_append list_update_append1)
    qed
  next
    case False
    then show ?thesis by (subst (1 2) adjust_heap_loop.simps) simp
  qed
qed

lemma hole_move_down:
  assumes hole: "heap_hole h i" and i: "i < length h" and c: "c < length h" "0 < c" "(c - 1) div 2 = i"
      and least: "\<forall>j. 0 < j \<and> j < length h \<and> (j - 1) div 2 = i
                      \<longrightarrow> getTimestamp (h ! c) \<le> getTimestamp (h ! j)"
  shows "heap_hole (h[i := h ! c]) c"
    and "mset (h[i := h ! c]) - {#h[i := h ! c] ! c#} = mset h - {#h ! i#}"
proof -
  let ?k = getTimestamp
  let ?h = "h[i := h ! c]"
  from c have ci: "i < c" by linarith
  from hole have A: "\<And>j. 0 < j \<Longrightarrow> j < length h \<Longrightarrow> j \<noteq> i \<Longrightarrow> (j - 1) div 2 \<noteq> i
                        \<Longrightarrow> ?k (h ! ((j - 1) div 2)) \<le> ?k (h ! j)"
    and B: "\<And>j. 0 < j \<Longrightarrow> j < length h \<Longrightarrow> (j - 1) div 2 = i \<Longrightarrow> 0 < i
                        \<Longrightarrow> ?k (h ! ((i - 1) div 2)) \<le> ?k (h ! j)"
    by (auto simp: heap_hole_def)
  show "heap_hole ?h c"
    unfolding heap_hole_def
  proof (intro conjI allI impI)
    fix j assume j: "0 < j \<and> j < length ?h \<and> j \<noteq> c \<and> (j - 1) div 2 \<noteq> c"
    show "?k (?h ! ((j - 1) div 2)) \<le> ?k (?h ! j)"
    proof (cases "j = i")
      case True
      with j have "(j - 1) div 2 \<noteq> i" by linarith
      with True j i c B[of c] show ?thesis by simp
    next
      case ji: False
      show ?thesis
      proof (cases "(j - 1) div 2 = i")
        case True
        with ji j i least show ?thesis by simp
      next
        case False
        with ji j A[of j] show ?thesis by simp
      qed
    qed
  next
    fix j assume j: "0 < j \<and> j < length ?h \<and> (j - 1) div 2 = c \<and> 0 < c"
    then have jc: "c < j" by linarith
    with ci have ji: "j \<noteq> i" by simp
    from j ci have "?k (h ! c) \<le> ?k (h ! j)" using A[of j] by auto
    with ji c i show "?k (?h ! ((c - 1) div 2)) \<le> ?k (?h ! j)" by simp
  qed
  from ci have "?h ! c = h ! c" by simp
  with i show "mset ?h - {#?h ! c#} = mset h - {#h ! i#}"
    by (simp add: mset_update)
qed

lemma adjust_heap_loop_inv:
  assumes "heap_hole h i" and "i < length h" and "s = i" and "len = length h"
      and "adjust_heap_loop h i s len = (h1, i1, s1)"
  shows "heap_hole h1 i1 \<and> i1 < length h1 \<and> length h1 = length h \<and> s1 = i1
         \<and> \<not> i1 < (length h - 1) div 2
         \<and> mset h1 - {#h1 ! i1#} = mset h - {#h ! i#}"
  using assms
proof (induction h i s len arbitrary: h1 i1 s1 rule: adjust_heap_loop.induct)
  case (1 h i s len)
  let ?k = getTimestamp
  show ?case
  proof (cases "s < (len - 1) div 2")
    case False
    with 1(6) have "h1 = h" "i1 = i" "s1 = s"
      by (subst (asm) adjust_heap_loop.simps, simp)+
    with False 1(2-5) show ?thesis by simp
  next
    case True
    let ?sc = "2 * (s + 1)"
    from loop_continue_bound[OF True] 1(5) have sc: "?sc < length h" "?sc - 1 < length h"
      by simp_all
    define c where "c = (if EventComparator (h ! ?sc) (h ! (?sc - 1)) then ?sc - 1 else ?sc)"
    from sc have cl: "c < length h" by (simp add: c_def)
    from 1(4) parent_of_child[of s] have c0: "0 < c" and cp: "(c - 1) div 2 = i"
      by (auto simp: c_def)
    have kids: "j = ?sc \<or> j = ?sc - 1" if "0 < j" "(j - 1) div 2 = i" for j
      using parent_bounds[OF that] 1(4) by auto
    have least: "\<forall>j. 0 < j \<and> j < length h \<and> (j - 1) div 2 = i \<longrightarrow> ?k (h ! c) \<le> ?k (h ! j)"
    proof (intro allI impI)
      fix j assume "0 < j \<and> j < length h \<and> (j - 1) div 2 = i"
      with kids[of j] have "j = ?sc \<or> j = ?sc - 1" by simp
      then show "?k (h ! c) \<le> ?k (h ! j)"
        by (auto simp: c_def EventComparator_def)
    qed
    from hole_move_down[OF 1(2,3) cl c0 cp least]
    have hole: "heap_hole (h[i := h ! c]) c"
      and ms: "mset (h[i := h ! c]) - {#h[i := h ! c] ! c#} = mset h - {#h ! i#}" by simp_all
    from True 1(6) have step: "adjust_heap_loop (h[i := h ! c]) c c len = (h1, i1, s1)"
      by (subst (asm) adjust_heap_loop.simps) (auto simp: Let_def c_def split: if_splits)
    from cl 1(5) have "c < length (h[i := h ! c])" "len = length (h[i := h ! c])" by simp_all
    from "1.IH"[OF True refl c_def hole this(1) refl this(2) step] ms
    show ?thesis by simp
  qed
qed

lemma adjust_heap_props:
  assumes "heap_hole h 0" and "0 < length h"
  shows "heap_order (adjust_heap h 0 (length h) v)"
    and "mset (adjust_heap h 0 (length h) v) = add_mset v (mset h - {#h ! 0#})"
proof -
  let ?k = getTimestamp
  let ?n = "length h"
  obtain h1 i1 s1 where loop: "adjust_heap_loop h 0 0 ?n = (h1, i1, s1)"
    by (cases "adjust_heap_loop h 0 0 ?n")
  from adjust_heap_loop_inv[OF assms refl refl loop]
  have hole: "heap_hole h1 i1" and i1: "i1 < length h1" and len: "length h1 = ?n" and s1: "s1 = i1"
    and stop: "\<not> i1 < (?n - 1) div 2" and ms: "mset h1 - {#h1 ! i1#} = mset h - {#h ! 0#}"
    by simp_all
  show "heap_order (adjust_heap h 0 (length h) v)"
    and "mset (adjust_heap h 0 (length h) v) = add_mset v (mset h - {#h ! 0#})"
  proof (atomize (full), cases "even ?n \<and> i1 = (?n - 2) div 2")
    case True
    let ?c = "2 * (i1 + 1) - 1"
    from True i1 len have n2: "2 \<le> ?n" by auto
    from even_half[OF _ n2] True have n: "?n = 2 * i1 + 2" by simp
    from n len parent_of_child(1)[of i1]
    have c: "?c < length h1" "0 < ?c" "(?c - 1) div 2 = i1" by simp_all
    have only: "j = ?c" if "0 < j" "j < length h1" "(j - 1) div 2 = i1" for j
      using parent_bounds[OF that(1,3)] that(2) n len by auto
    then have least: "\<forall>j. 0 < j \<and> j < length h1 \<and> (j - 1) div 2 = i1
                        \<longrightarrow> ?k (h1 ! ?c) \<le> ?k (h1 ! j)" by auto
    from hole_move_down[OF hole i1 c least]
    have hole2: "heap_hole (h1[i1 := h1 ! ?c]) ?c"
      and ms2: "mset (h1[i1 := h1 ! ?c]) - {#h1[i1 := h1 ! ?c] ! ?c#} = mset h1 - {#h1 ! i1#}"
      by simp_all
    have leaf: "\<forall>j. 0 < j \<and> j < length (h1[i1 := h1 ! ?c]) \<and> (j - 1) div 2 = ?c
                   \<longrightarrow> ?k v \<le> ?k (h1[i1 := h1 ! ?c] ! j)"
    proof (intro allI impI)
      fix j assume j: "0 < j \<and> j < length (h1[i1 := h1 ! ?c]) \<and> (j - 1) div 2 = ?c"
      with parent_bounds[of j ?c] n len have False by simp
      then show "?k v \<le> ?k (h1[i1 := h1 ! ?c] ! j)" ..
    qed
    from c have cl: "?c < length (h1[i1 := h1 ! ?c])" by simp
    have res: "adjust_heap h 0 ?n v = push_heap_loop (h1[i1 := h1 ! ?c]) ?c 0 v"
      using loop True s1 by (simp add: adjust_heap_def Let_def)
    from push_heap_loop_order[OF hole2 cl leaf] push_heap_loop_mset[OF cl, of 0 v] ms2 ms res
    show "heap_order (adjust_heap h 0 (length h) v)
          \<and> mset (adjust_heap h 0 (length h) v) = add_mset v (mset h - {#h ! 0#})"
      by simp
  next
    case False
    have leaf: "\<forall>j. 0 < j \<and> j < length h1 \<and> (j - 1) div 2 = i1 \<longrightarrow> ?k v \<le> ?k (h1 ! j)"
      using no_child[OF stop False] len by auto
    have res: "adjust_heap h 0 ?n v = push_heap_loop h1 i1 0 v"
      using loop False s1 by (auto simp: adjust_heap_def Let_def)
    from push_heap_loop_order[OF hole i1 leaf] push_heap_loop_mset[OF i1, of 0 v] ms res
    show "heap_order (adjust_heap h 0 (length h) v)
          \<and> mset (adjust_heap h 0 (length h) v) = add_mset v (mset h - {#h ! 0#})"
      by simp
  qed
qed

subsection \<open>Popping the queue\<close>

lemma adjust_heap_frame:
  assumes "heap_hole xs 0" and "0 < length xs"
  shows "adjust_heap (xs @ ys) 0 (length xs) v = adjust_heap xs 0 (length xs) v @ ys"
proof -
  let ?n = "length xs"
  obtain h1 i1 s1 where loop: "adjust_heap_loop xs 0 0 ?n = (h1, i1, s1)"
    by (cases "adjust_heap_loop xs 0 0 ?n")
  from adjust_heap_loop_inv[OF assms refl refl loop]
  have i1: "i1 < length h1" and len: "length h1 = ?n" and s1: "s1 = i1" by simp_all
  from adjust_heap_loop_frame[OF assms(2) order_refl, of ys 0] loop
  have loop': "adjust_heap_loop (xs @ ys) 0 0 ?n = (h1 @ ys, i1, s1)" by simp
  show ?thesis
  proof (cases "even ?n \<and> s1 = (?n - 2) div 2")
    case True
    let ?c = "2 * (s1 + 1) - 1"
    from True i1 len s1 have n2: "2 \<le> ?n" by auto
    from even_half[OF _ n2] True have "?n = 2 * s1 + 2" by simp
    with len have c: "?c < length h1" by simp
    with i1 have "(h1 @ ys)[i1 := (h1 @ ys) ! ?c] = h1[i1 := h1 ! ?c] @ ys"
      by (simp add: nth_append list_update_append1)
    moreover from c have "?c < length (h1[i1 := h1 ! ?c])" by simp
    ultimately show ?thesis
      using loop loop' True by (simp add: adjust_heap_def Let_def push_heap_loop_frame)
  next
    case False
    with loop loop' i1 show ?thesis
      by (auto simp: adjust_heap_def Let_def push_heap_loop_frame)
  qed
qed

lemma queue_pop_props:
  assumes "heap_order q" and "q \<noteq> []"
  shows "heap_order (queue_pop q)" and "mset (queue_pop q) = mset q - {#queue_top q#}"
proof -
  show "heap_order (queue_pop q)" and "mset (queue_pop q) = mset q - {#queue_top q#}"
  proof (atomize (full), cases "length q > 1")
    case False
    with assms(2) obtain x where "q = [x]" by (cases q) auto
    then show "heap_order (queue_pop q) \<and> mset (queue_pop q) = mset q - {#queue_top q#}"
      by (simp add: queue_pop_def pop_heap_def queue_top_def heap_order_def)
  next
    case True
    let ?xs = "butlast q"
    from True have xs: "0 < length ?xs" by simp
    from assms(2) have q: "q = ?xs @ [last q]" by simp
    have upd: "q[length q - 1 := q ! 0] = ?xs @ [q ! 0]"
      by (subst q) (simp add: list_update_append)
    have lastq: "q ! (length q - 1) = last q" using assms(2) by (simp add: last_conv_nth)
    from heap_order_butlast[OF assms(1)] have hole: "heap_hole ?xs 0" by (rule heap_order_hole)
    from True upd lastq have "pop_heap q = adjust_heap (?xs @ [q ! 0]) 0 (length ?xs) (last q)"
      by (simp add: pop_heap_def Let_def)
    with adjust_heap_frame[OF hole xs]
    have pop: "queue_pop q = adjust_heap ?xs 0 (length ?xs) (last q)"
      by (simp add: queue_pop_def)
    from xs have x0: "?xs ! 0 = q ! 0" by (simp add: nth_butlast)
    from xs have "?xs ! 0 \<in># mset ?xs" by (metis nth_mem set_mset_mset)
    then have "add_mset (last q) (mset ?xs - {#?xs ! 0#}) = add_mset (last q) (mset ?xs) - {#?xs ! 0#}"
      by simp
    also have "add_mset (last q) (mset ?xs) = mset q" by (subst (2) q) simp
    finally have "add_mset (last q) (mset ?xs - {#?xs ! 0#}) = mset q - {#q ! 0#}"
      using x0 by simp
    with adjust_heap_props[OF hole xs, of "last q"] pop
    show "heap_order (queue_pop q) \<and> mset (queue_pop q) = mset q - {#queue_top q#}"
      by (simp add: queue_top_def)
  qed
qed

lemma queue_pop_subset: "heap_order q \<Longrightarrow> q \<noteq> [] \<Longrightarrow> set (queue_pop q) \<subseteq> set q"
  by (metis queue_pop_props(2) in_diffD set_mset_mset subsetI)

lemma fold_queue_push_order: "heap_order q \<Longrightarrow> heap_order (fold queue_push es q)"
  by (induction es arbitrary: q) (simp_all add: queue_push_order)

lemma fold_queue_push_set: "set (fold queue_push es q) = set es \<union> set q"
proof (induction es arbitrary: q)
  case Nil
  then show ?case by simp
next
  case (Cons e es)
  have "set (queue_push e q) = insert e (set q)"
    by (metis queue_push_mset set_mset_add_mset_insert set_mset_mset)
  with Cons show ?case by auto
qed

subsection \<open>An invariant rule for the event loop\<close>

lemma run_loop_invariant:
  assumes run: "run_loop pmu bt d = Some (bt', d')"
      and init: "I bt d"
      and step: "\<And>bt d bt3. I bt d \<Longrightarrow> event_queue' bt \<noteq> [] \<Longrightarrow>
                   processEvent pmu (queue_top (event_queue' bt))
                     (bt\<lparr>event_queue' := queue_pop (event_queue' bt),
                         current_time_us' := getTimestamp (queue_top (event_queue' bt))\<rparr>) = Some bt3
                   \<Longrightarrow> I bt3 (d @ [queue_top (event_queue' bt)])"
  shows "I bt' d' \<and> event_queue' bt' = []"
proof -
  let ?P = "\<lambda>p b0 d0 y. p = pmu \<longrightarrow> I b0 d0 \<longrightarrow> I (fst y) (snd y) \<and> event_queue' (fst y) = []"
  have "?P pmu bt d (bt', d')"
  proof (rule run_loop.raw_induct[where P = ?P, OF _ run])
    fix loop p b0 d0 y
    assume IH: "\<And>p b0 d0 y. loop p b0 d0 = Some y \<Longrightarrow> ?P p b0 d0 y"
      and body: "(if event_queue' b0 = [] then Some (b0, d0)
                  else let event = queue_top (event_queue' b0);
                           bt1 = b0\<lparr>event_queue' := queue_pop (event_queue' b0)\<rparr>;
                           bt2 = bt1\<lparr>current_time_us' := getTimestamp event\<rparr>
                       in case processEvent p event bt2 of None \<Rightarrow> None
                          | Some bt3 \<Rightarrow> loop p bt3 (d0 @ [event])) = Some y"
    show "?P p b0 d0 y"
    proof (intro impI)
      assume p: "p = pmu" and inv: "I b0 d0"
      show "I (fst y) (snd y) \<and> event_queue' (fst y) = []"
      proof (cases "event_queue' b0 = []")
        case True
        with body inv show ?thesis by auto
      next
        case False
        let ?e = "queue_top (event_queue' b0)"
        let ?bt2 = "b0\<lparr>event_queue' := queue_pop (event_queue' b0),
                       current_time_us' := getTimestamp ?e\<rparr>"
        from False body obtain bt3 where pe: "processEvent p ?e ?bt2 = Some bt3"
          and rec: "loop p bt3 (d0 @ [?e]) = Some y"
          by (auto simp: Let_def split: option.splits)
        from step[OF inv False] pe p have "I bt3 (d0 @ [?e])" by simp
        with IH[OF rec] p show ?thesis by simp
      qed
    qed
  qed
  with init show ?thesis by simp
qed

subsection \<open>What one event does to the queue\<close>

text \<open>A strategy that stamps its signals no earlier than the market update it answers;
  \<^verbatim>\<open>NewsMomentumStrategy\<close> stamps them with the timestamp of the update.\<close>

definition signals_not_before :: "(int \<Rightarrow> Tick \<Rightarrow> 's \<Rightarrow> ('s \<times> Event list) option) \<Rightarrow> bool" where
  "signals_not_before pmu =
     (\<forall>ts tick s s' sigs. pmu ts tick s = Some (s', sigs)
          \<longrightarrow> (\<forall>e \<in> set sigs. ts \<le> getTimestamp e))"

lemma processMarketUpdate_signal_times:
  "processMarketUpdate ts t s = Some (s', sigs) \<Longrightarrow> \<forall>e \<in> set sigs. getTimestamp e = ts"
  by (auto simp: processMarketUpdate_def Let_def split: if_splits prod.splits option.splits)

lemma signals_not_before_NewsMomentum: "signals_not_before processMarketUpdate"
  unfolding signals_not_before_def using processMarketUpdate_signal_times by fastforce

lemma static_cast_int64_nonneg: "0 \<le> x \<Longrightarrow> 0 \<le> static_cast_int64 x"
  by (simp add: static_cast_int64_def)

lemma closePosition_frame:
  "event_queue' (closePosition n p ts bt) = event_queue' bt
   \<and> latency_ms' (closePosition n p ts bt) = latency_ms' bt
   \<and> tick_data' (closePosition n p ts bt) = tick_data' bt
   \<and> strategies' (closePosition n p ts bt) = strategies' bt"
  by (simp add: closePosition_def Let_def split: option.splits)

lemma updatePosition_frame:
  "event_queue' (updatePosition ts n dir q p bt) = event_queue' bt
   \<and> latency_ms' (updatePosition ts n dir q p bt) = latency_ms' bt
   \<and> tick_data' (updatePosition ts n dir q p bt) = tick_data' bt
   \<and> strategies' (updatePosition ts n dir q p bt) = strategies' bt"
  by (simp add: updatePosition_def Let_def closePosition_frame split: option.splits)

lemma processEvent_queue:
  assumes "processEvent pmu e bt = Some bt'" and "signals_not_before pmu"
      and "0 \<le> latency_ms' bt"
  shows "\<exists>new. event_queue' bt' = fold queue_push new (event_queue' bt)
            \<and> (\<forall>x \<in> set new. getTimestamp e \<le> getTimestamp x)
            \<and> latency_ms' bt' = latency_ms' bt \<and> tick_data' bt' = tick_data' bt"
proof (cases e)
  case (MarketUpdateEvent ts tick)
  show ?thesis
  proof (cases "event_queue' bt' = event_queue' bt \<and> latency_ms' bt' = latency_ms' bt
                \<and> tick_data' bt' = tick_data' bt")
    case True
    then show ?thesis by (intro exI[of _ "[]"]) simp
  next
    case False
    with assms(1) MarketUpdateEvent obtain strategy strategy' signals name where
      "pmu ts tick strategy = Some (strategy', signals)"
      "bt' = bt\<lparr>strategies' := map_set name strategy' (strategies' bt),
                 event_queue' := fold queue_push signals (event_queue' bt)\<rparr>"
      by (auto simp: Backtester_processMarketUpdate_def Let_def split: if_splits option.splits)
    with assms(2) MarketUpdateEvent show ?thesis
      by (intro exI[of _ signals]) (auto simp: signals_not_before_def)
  qed
next
  case (SignalEvent ts n dir q p)
  with assms(1) show ?thesis
    by (intro exI[of _ "[OrderEvent ts n dir q p]"]) (auto simp: processSignalEvent_def)
next
  case (OrderEvent ts n dir q p)
  from assms(3) have "0 \<le> static_cast_int64 (latency_ms' bt * 1000)"
    by (intro static_cast_int64_nonneg) simp
  with assms(1) OrderEvent show ?thesis
    by (intro exI[of _ "[order_fill bt ts n dir q p]"])
       (auto simp: processOrderEvent_def order_fill_def applyLatency_def Let_def)
next
  case (FillEvent ts n dir q p c)
  with assms(1) updatePosition_frame[of ts n dir q p bt] show ?thesis
    by (intro exI[of _ "[]"]) (auto simp: processFillEvent_def)
qed

section \<open>The order of dispatch\<close>

text \<open>The invariant of the event loop: the queue is a heap, and nothing in it is stamped
  earlier than an event already dispatched.\<close>

definition dispatch_inv :: "'s Backtester \<Rightarrow> Event list \<Rightarrow> bool" where
  "dispatch_inv bt d =
     (0 \<le> latency_ms' bt \<and> heap_order (event_queue' bt) \<and> sorted (map getTimestamp d)
      \<and> (\<forall>x \<in> set d. \<forall>e \<in> set (event_queue' bt). getTimestamp x \<le> getTimestamp e))"

lemma dispatch_inv_step:
  assumes inv: "dispatch_inv bt d" and ne: "event_queue' bt \<noteq> []"
      and snb: "signals_not_before pmu"
      and pe: "processEvent pmu (queue_top (event_queue' bt))
                 (bt\<lparr>event_queue' := queue_pop (event_queue' bt),
                     current_time_us' := getTimestamp (queue_top (event_queue' bt))\<rparr>) = Some bt3"
  shows "dispatch_inv bt3 (d @ [queue_top (event_queue' bt)])"
proof -
  let ?q = "event_queue' bt"
  let ?e = "queue_top ?q"
  let ?bt2 = "bt\<lparr>event_queue' := queue_pop ?q, current_time_us' := getTimestamp ?e\<rparr>"
  from inv have lat: "0 \<le> latency_ms' bt" and ho: "heap_order ?q"
    and so: "sorted (map getTimestamp d)"
    and le: "\<forall>x \<in> set d. \<forall>e \<in> set ?q. getTimestamp x \<le> getTimestamp e"
    by (simp_all add: dispatch_inv_def)
  from ne have top_in: "?e \<in> set ?q" by (simp add: queue_top_def)
  from lat have "0 \<le> latency_ms' ?bt2" by simp
  from processEvent_queue[OF pe snb this] obtain new where
    q3: "event_queue' bt3 = fold queue_push new (queue_pop ?q)"
    and new: "\<forall>x \<in> set new. getTimestamp ?e \<le> getTimestamp x"
    and lat3: "latency_ms' bt3 = latency_ms' bt"
    by auto
  from queue_pop_props(1)[OF ho ne] q3 have ho3: "heap_order (event_queue' bt3)"
    by (simp add: fold_queue_push_order)
  have in3: "getTimestamp ?e \<le> getTimestamp x" if "x \<in> set (event_queue' bt3)" for x
  proof -
    from that q3 have "x \<in> set new \<or> x \<in> set (queue_pop ?q)" by (simp add: fold_queue_push_set)
    with new queue_pop_subset[OF ho ne] queue_top_min[OF ho] show ?thesis by auto
  qed
  from so le top_in have "sorted (map getTimestamp (d @ [?e]))"
    by (auto simp: sorted_append)
  moreover have "\<forall>x \<in> set (d @ [?e]). \<forall>e \<in> set (event_queue' bt3). getTimestamp x \<le> getTimestamp e"
  proof (intro ballI)
    fix x y assume x: "x \<in> set (d @ [?e])" and y: "y \<in> set (event_queue' bt3)"
    from in3[OF y] have "getTimestamp ?e \<le> getTimestamp y" .
    moreover from x le top_in have "getTimestamp x \<le> getTimestamp ?e" by auto
    ultimately show "getTimestamp x \<le> getTimestamp y" by linarith
  qed
  ultimately show ?thesis using lat lat3 ho3 by (simp add: dispatch_inv_def)
qed

lemma loadTickData_heap_order:
  "heap_order (event_queue' bt) \<Longrightarrow> heap_order (event_queue' (snd (loadTickData ticks n bt)))"
proof -
  assume h: "heap_order (event_queue' bt)"
  have "heap_order (fold (\<lambda>tick q. queue_push (MarketUpdateEvent (timestamp_us tick) tick) q) ts q)"
    if "heap_order q" for ts q
    using that by (induction ts arbitrary: q) (simp_all add: queue_push_order)
  with h show ?thesis by (simp add: loadTickData_def)
qed

text \<open>
  Claim C3 fails as stated: ties are not dispatched in enqueue order. Four ticks with the
  same timestamp are loaded, in the order of their prices 101, 102, 103, 104; the loop
  dispatches them in the order 101, 103, 102, 104.
\<close>

definition dispatched_prices :: "Event list \<Rightarrow> (int \<times> real) list" where
  "dispatched_prices d =
     concat (map (\<lambda>e. case e of MarketUpdateEvent ts tick \<Rightarrow> [(ts, price tick)] | _ \<Rightarrow> []) d)"

definition tied_ticks :: "Tick list" where
  "tied_ticks = [quote 1000000 101 1000, quote 1000000 102 1000,
                 quote 1000000 103 1000, quote 1000000 104 1000]"

theorem C3_ties_not_fifo_counterexample:
  "map_option (dispatched_prices \<circ> snd)
     (run processMarketUpdate (loaded_backtester tied_ticks (Some (RegimeClassifier_init 100 2))))
   = Some [(1000000, 101), (1000000, 103), (1000000, 102), (1000000, 104)]"
  by (simp add: loaded_backtester_def tied_ticks_def dispatched_prices_def scenario_defs
                indicator_defs strategy_defs heap_defs backtester_defs
                updateAndClassify_def RegimeClassifier_init_def Let_def)

text \<open>
  Claim C3 as amended. The queue is a heap when the run starts (as it is after any
  number of \<^verbatim>\<open>loadTickData\<close> calls), the latency is not negative, and the strategies stamp
  their signals no earlier than the update they answer. Then the events are dispatched
  in non-decreasing order of timestamp. (Among equal timestamps the order is the one the
  binary heap yields, which is not the order of enqueueing.)
\<close>

theorem C3_dispatch_in_timestamp_order:
  assumes "heap_order (event_queue' bt)" and "0 \<le> latency_ms' bt"
      and "signals_not_before pmu"
      and "run pmu bt = Some (bt', dispatched)"
  shows "sorted (map getTimestamp dispatched)"
proof -
  from assms(4) obtain bt1 where loop: "run_loop pmu bt [] = Some (bt1, dispatched)"
    by (auto simp: run_def split: option.splits)
  from assms(1,2) have "dispatch_inv bt []" by (simp add: dispatch_inv_def)
  from run_loop_invariant[of pmu bt "[]" bt1 dispatched dispatch_inv, OF loop this]
       dispatch_inv_step[OF _ _ assms(3)]
  have "dispatch_inv bt1 dispatched" by blast
  then show ?thesis by (simp add: dispatch_inv_def)
qed

lemma two_spikes_run:
  "map_option (\<lambda>(bt, d). (trade_log' bt, d))
     (run processMarketUpdate (loaded_backtester (quiet_ticks @ [spike_tick, second_spike_tick]) None))
   = Some ([\<lparr>entry_timestamp_us = 7200000, exit_timestamp_us = 8000000, symbol = ''TICKER'',
             entry_price = 150, exit_price = 150, quantity = 200, pnl = 0,
             regime = ''TRENDING''\<rparr>],
           [MarketUpdateEvent 1000000 (quote 1000000 100 1000),
            MarketUpdateEvent 2000000 (quote 2000000 99 1000),
            MarketUpdateEvent 3000000 (quote 3000000 99 1000),
            MarketUpdateEvent 4000000 (quote 4000000 99 1000),
            MarketUpdateEvent 5000000 (quote 5000000 99 1000),
            MarketUpdateEvent 6000000 (quote 6000000 99 1000),
            MarketUpdateEvent 7000000 (quote 7000000 120 100000),
            SignalEvent 7000000 ''TICKER'' LONG 100 120,
            OrderEvent 7000000 ''TICKER'' LONG 100 120,
            FillEvent 7200000 ''TICKER'' LONG 100 150 1.5,
            MarketUpdateEvent 8000000 (quote 8000000 150 1000000),
            SignalEvent 8000000 ''TICKER'' LONG 100 150,
            OrderEvent 8000000 ''TICKER'' LONG 100 150,
            FillEvent 8200000 ''TICKER'' LONG 100 150 1.5])"
  by (simp add: loaded_backtester_def scenario_defs indicator_defs strategy_defs heap_defs
                backtester_defs Let_def)

theorem C3_dispatch_in_timestamp_order_witness:
  "\<exists>bt' d. run processMarketUpdate
              (loaded_backtester (quiet_ticks @ [spike_tick, second_spike_tick]) None) = Some (bt', d)
     \<and> map getTimestamp d = [1000000, 2000000, 3000000, 4000000, 5000000, 6000000, 7000000,
                              7000000, 7000000, 7200000, 8000000, 8000000, 8000000, 8200000]
     \<and> sorted (map getTimestamp d)"
proof -
  let ?bt = "loaded_backtester (quiet_ticks @ [spike_tick, second_spike_tick]) None
               :: NewsMomentumStrategy Backtester"
  from two_spikes_run obtain bt' d where
    r: "run processMarketUpdate ?bt = Some (bt', d)"
    and d: "map getTimestamp d = [1000000, 2000000, 3000000, 4000000, 5000000, 6000000, 7000000,
                              7000000, 7000000, 7200000, 8000000, 8000000, 8000000, 8200000]"
    by (auto simp: quote_def)
  have "heap_order (event_queue' (Backtester_init 200 :: NewsMomentumStrategy Backtester))"
    by (simp add: Backtester_init_def heap_order_def)
  from loadTickData_heap_order[OF this]
  have h: "heap_order (event_queue' ?bt)"
    by (simp add: loaded_backtester_def registerStrategy_def)
  have l: "0 \<le> latency_ms' ?bt"
    by (simp add: loaded_backtester_def registerStrategy_def loadTickData_def Backtester_init_def
                  scenario_defs)
  from C3_dispatch_in_timestamp_order[OF h l signals_not_before_NewsMomentum r]
  have "sorted (map getTimestamp d)" .
  with r d show ?thesis by (intro exI[of _ bt'] exI[of _ d] conjI)
qed

section \<open>The timestamps of a trade record\<close>














text \<open>One step of the loop of \<^verbatim>\<open>run\<close> that closes what is still open: it appends nothing, or
  one record that carries the timestamp and the price of the last tick of the symbol.\<close>

lemma close_remaining_record:
  "trade_log' (close_remaining n bt) = trade_log' bt
   \<or> (\<exists>ticks t. map_find (tick_data' bt) n = Some ticks \<and> ticks \<noteq> []
          \<and> trade_log' (close_remaining n bt) = trade_log' bt @ [t]
          \<and> exit_timestamp_us t = timestamp_us (last ticks)
          \<and> exit_price t = price (last ticks))"
  by (auto simp: close_remaining_def closePosition_def Let_def split: option.splits)







section \<open>Adding to an open position\<close>

text \<open>The \<^verbatim>\<open>LONG\<close> fills among the dispatched events, each with its timestamp and quantity,
  and the quantities of the records of the trade log.\<close>

definition long_fills :: "Event list \<Rightarrow> (int \<times> real) list" where
  "long_fills d =
     concat (map (\<lambda>e. case e of FillEvent ts n dir q p c \<Rightarrow> (if dir = LONG then [(ts, q)] else [])
                            | _ \<Rightarrow> []) d)"

definition trade_quantities :: "'s Backtester \<Rightarrow> real list" where
  "trade_quantities bt = map quantity (trade_log' bt)"

text \<open>
  Claim C1 does not hold of the code. The strategy guards its entry by \<^verbatim>\<open>!hasPosition()\<close>,
  but nothing ever assigns \<^verbatim>\<open>position_\<close>, so the guard never closes. On the stream with
  two spikes the strategy signals \<^verbatim>\<open>LONG\<close> twice; the first fill, at 7200000, opens a
  position of 100, the second, at 8200000, meets the open position and is added to it
  (the branch of the average price in \<^verbatim>\<open>updatePosition\<close>): the one trade that is logged
  has the quantity 200.
\<close>

theorem C1_second_long_fill_adds_to_open_position:
  "map_option (long_fills \<circ> snd)
     (run processMarketUpdate (loaded_backtester (quiet_ticks @ [spike_tick, second_spike_tick]) None))
     = Some [(7200000, 100), (8200000, 100)]
   \<and> map_option (trade_quantities \<circ> fst)
     (run processMarketUpdate (loaded_backtester (quiet_ticks @ [spike_tick, second_spike_tick]) None))
     = Some [200]"
proof -
  from two_spikes_run obtain bt d where
    "run processMarketUpdate (loaded_backtester (quiet_ticks @ [spike_tick, second_spike_tick]) None)
       = Some (bt, d)"
    and "long_fills d = [(7200000, 100), (8200000, 100)]"
    and "trade_quantities bt = [200]"
    by (auto simp: long_fills_def trade_quantities_def)
  then show ?thesis by simp
qed

end
